theory Spec2Isabelle
  imports Main "HOL-Library.Multiset" "HOL-Library.Word"
begin

section \<open>The WCC context: \<^verbatim>\<open>examples/analytical_apps/wcc/wcc_auto_context.h\<close>\<close>

subsection \<open>The merge function of \<^verbatim>\<open>global_cluster_id\<close>\<close>

text \<open>
  \<^verbatim>\<open>WCCAutoContext::Init\<close> hands this lambda to \<^verbatim>\<open>global_cluster_id.Init\<close> (lines 52 to 59):
  \<^verbatim>\<open>
  [](cid_t* lhs, cid_t rhs) {
    if (*lhs > rhs) { *lhs = rhs; return true; } else { return false; }
  }
  \<close>
  The pointee \<^verbatim>\<open>*lhs\<close> is passed in and handed back: the result is the returned flag
  and the value \<^verbatim>\<open>*lhs\<close> holds after the call. \<^verbatim>\<open>cid_t\<close> is \<^verbatim>\<open>oid_t\<close>, or \<^verbatim>\<open>vid_t\<close> under
  \<^verbatim>\<open>WCC_USE_GID\<close>; the lambda only compares and assigns, so the model is generic in a
  linearly ordered type.
\<close>

definition merge :: "'cid::linorder \<Rightarrow> 'cid \<Rightarrow> bool \<times> 'cid" where
  "merge lhs rhs = (if lhs > rhs then (True, rhs) else (False, lhs))"

text \<open>
  One buffer entry receiving a list of incoming values, oldest first: \<^verbatim>\<open>merge\<close> is
  called once per value on the same entry, and the flags are dropped.
\<close>

definition merge_all :: "'cid::linorder \<Rightarrow> 'cid list \<Rightarrow> 'cid" where
  "merge_all cur incoming = foldl (\<lambda>c r. snd (merge c r)) cur incoming"

subsection \<open>Collaborators of the context\<close>

text \<open>
  Modelled from the spec: the fragment class \<^verbatim>\<open>FRAG_T\<close> is a template parameter and no
  fragment is part of the sources. The Fragment "classifies vertices as inner (owned) or
  outer (ghost copies of remotely-owned vertices), exposes vertex iteration", and the
  context consumes \<^verbatim>\<open>Vertices()\<close>, \<^verbatim>\<open>InnerVertices()\<close> and \<^verbatim>\<open>GetId(vertex) -> globalId\<close> from
  it. The full vertex set is "inner + outer". The lists give the iteration order of the
  ranges.
\<close>

record ('v, 'oid) Fragment =
  InnerVertices :: "'v list"
  OuterVertices :: "'v list"
  GetId :: "'v \<Rightarrow> 'oid"

definition Vertices :: "('v, 'oid) Fragment \<Rightarrow> 'v list" where
  "Vertices frag = InnerVertices frag @ OuterVertices frag"

text \<open>
  Modelled from the spec: \<^verbatim>\<open>SyncBuffer\<close> and the fragment's \<^verbatim>\<open>vertex_array_t\<close> are not part
  of the sources. A Sync Buffer is "logically a mapping from vertex (by local index) to a
  value"; \<^verbatim>\<open>Init(vertexRange, sentinel, mergeFn)\<close> "allocates backing storage sized to
  vertexRange, fills with sentinel"; \<^verbatim>\<open>GetValue(vertex) -> V\<close> is a local read. The storage
  is a map whose domain is the range; a read outside the storage has no value (\<open>None\<close>).
\<close>

type_synonym ('v, 'a) VertexArray = "'v \<rightharpoonup> 'a"

definition VertexArray_Init :: "'v list \<Rightarrow> 'a \<Rightarrow> ('v, 'a) VertexArray" where
  "VertexArray_Init vrange value = (\<lambda>v. if v \<in> set vrange then Some value else None)"

record ('v, 'a) SyncBuffer =
  data :: "('v, 'a) VertexArray"
  aggregator :: "'a \<Rightarrow> 'a \<Rightarrow> bool \<times> 'a"

definition SyncBuffer_Init ::
  "'v list \<Rightarrow> 'a \<Rightarrow> ('a \<Rightarrow> 'a \<Rightarrow> bool \<times> 'a) \<Rightarrow> ('v, 'a) SyncBuffer" where
  "SyncBuffer_Init vrange value f = \<lparr>data = VertexArray_Init vrange value, aggregator = f\<rparr>"

definition GetValue :: "('v, 'a) SyncBuffer \<Rightarrow> 'v \<Rightarrow> 'a option" where
  "GetValue buf v = data buf v"

text \<open>
  Modelled from the spec: \<^verbatim>\<open>AutoParallelMessageManager\<close> is not part of the sources. The
  Message Channel offers \<^verbatim>\<open>RegisterSyncBuffer(fragment, buffer, strategy)\<close>, and a buffer is
  "registered (not owned) by the Message Channel for synchronization duty". The manager
  keeps its registrations in call order; the pointer \<^verbatim>\<open>&global_cluster_id\<close> is represented
  by the buffer it points to.
\<close>

record ('v, 'oid, 'cid, 'strategy) AutoParallelMessageManager =
  registered :: "(('v, 'oid) Fragment \<times> ('v, 'cid) SyncBuffer \<times> 'strategy) list"

definition RegisterSyncBuffer ::
  "('v, 'oid) Fragment \<Rightarrow> ('v, 'cid) SyncBuffer \<Rightarrow> 'strategy \<Rightarrow>
   ('v, 'oid, 'cid, 'strategy) AutoParallelMessageManager \<Rightarrow>
   ('v, 'oid, 'cid, 'strategy) AutoParallelMessageManager" where
  "RegisterSyncBuffer frag buffer strategy messages =
     messages\<lparr>registered := registered messages @ [(frag, buffer, strategy)]\<rparr>"

text \<open>
  What the header takes from outside the repository's sources shown here, as parameters:
  the two \<^verbatim>\<open>std::numeric_limits<T>::max()\<close> values, the enumerator
  \<^verbatim>\<open>MessageStrategy::kSyncOnOuterVertex\<close>, the conversion from \<^verbatim>\<open>cid_t\<close> to the data type
  \<^verbatim>\<open>oid_t\<close> of \<^verbatim>\<open>VertexDataContext\<close> (the identity unless \<^verbatim>\<open>WCC_USE_GID\<close> is defined), and
  the stream inserters \<^verbatim>\<open>operator<<\<close> for \<^verbatim>\<open>oid_t\<close> and \<^verbatim>\<open>cid_t\<close>.
\<close>

record ('vid, 'oid, 'cid, 'strategy) externals =
  vid_max :: 'vid
  cid_max :: 'cid
  kSyncOnOuterVertex :: 'strategy
  oid_of_cid :: "'cid \<Rightarrow> 'oid"
  put_oid :: "'oid \<Rightarrow> string"
  put_cid :: "'cid \<Rightarrow> string"

subsection \<open>The context\<close>

text \<open>
  The members of \<^verbatim>\<open>WCCAutoContext\<close> (lines 74 to 77) and what it inherits: the fragment
  that \<^verbatim>\<open>this->fragment()\<close> returns and the per-vertex data that \<^verbatim>\<open>this->SetValue\<close> writes
  (\<^verbatim>\<open>VertexDataContext<FRAG_T, oid_t>\<close>).
\<close>

record ('v, 'vid, 'oid, 'cid) WCCAutoContext =
  fragment :: "('v, 'oid) Fragment"
  m_data :: "('v, 'oid) VertexArray"
  outer_vertices :: "'v list list"
  local_comp_id :: "('v, 'vid) VertexArray"
  global_comp_id :: "'cid list"
  global_cluster_id :: "('v, 'cid) SyncBuffer"

text \<open>
  \<^verbatim>\<open>VertexDataContext::SetValue(v, x)\<close>, inherited and not part of the sources: it stores
  \<open>x\<close> as the data of the vertex \<open>v\<close>.
\<close>

definition SetValue ::
  "'v \<Rightarrow> 'oid \<Rightarrow> ('v, 'vid, 'oid, 'cid) WCCAutoContext \<Rightarrow> ('v, 'vid, 'oid, 'cid) WCCAutoContext" where
  "SetValue v x ctx = ctx\<lparr>m_data := (m_data ctx)(v \<mapsto> x)\<rparr>"

text \<open>\<^verbatim>\<open>WCCAutoContext::Init\<close>, lines 45 to 62.\<close>

definition WCCAutoContext_Init ::
  "('vid, 'oid, 'cid::linorder, 'strategy) externals \<Rightarrow>
   ('v, 'vid, 'oid, 'cid) WCCAutoContext \<Rightarrow>
   ('v, 'oid, 'cid, 'strategy) AutoParallelMessageManager \<Rightarrow>
   ('v, 'vid, 'oid, 'cid) WCCAutoContext \<times> ('v, 'oid, 'cid, 'strategy) AutoParallelMessageManager" where
  "WCCAutoContext_Init X ctx messages =
     (let frag = fragment ctx;
          vertices = Vertices frag;
          inner_vertices = InnerVertices frag;
          ctx = ctx\<lparr>local_comp_id := VertexArray_Init inner_vertices (vid_max X)\<rparr>;
          ctx = ctx\<lparr>global_cluster_id := SyncBuffer_Init vertices (cid_max X) merge\<rparr>;
          messages = RegisterSyncBuffer frag (global_cluster_id ctx) (kSyncOnOuterVertex X) messages
      in (ctx, messages))"

text \<open>
  \<^verbatim>\<open>WCCAutoContext::Output\<close>, lines 64 to 72. The stream is the text written to it so far.
  A vertex whose buffer entry does not exist stops the loop with a fault.
\<close>

datatype 'v fault = OutOfRange 'v

definition endl :: string where
  "endl = [CHR 0x0A]"

fun Output_loop ::
  "('vid, 'oid, 'cid, 'strategy) externals \<Rightarrow> ('v, 'oid) Fragment \<Rightarrow> 'v list \<Rightarrow>
   ('v, 'vid, 'oid, 'cid) WCCAutoContext \<Rightarrow> string \<Rightarrow>
   'v fault + ('v, 'vid, 'oid, 'cid) WCCAutoContext \<times> string" where
  "Output_loop X frag [] ctx os = Inr (ctx, os)"
| "Output_loop X frag (v # vs) ctx os =
     (case GetValue (global_cluster_id ctx) v of
        None \<Rightarrow> Inl (OutOfRange v)
      | Some x \<Rightarrow>
          (let ctx = SetValue v (oid_of_cid X x) ctx in
           case GetValue (global_cluster_id ctx) v of
             None \<Rightarrow> Inl (OutOfRange v)
           | Some y \<Rightarrow>
               Output_loop X frag vs ctx
                 (os @ put_oid X (GetId frag v) @ '' '' @ put_cid X y @ endl)))"

declare Output_loop.simps(2) [simp del]

definition WCCAutoContext_Output ::
  "('vid, 'oid, 'cid, 'strategy) externals \<Rightarrow> ('v, 'vid, 'oid, 'cid) WCCAutoContext \<Rightarrow> string \<Rightarrow>
   'v fault + ('v, 'vid, 'oid, 'cid) WCCAutoContext \<times> string" where
  "WCCAutoContext_Output X ctx os =
     (let frag = fragment ctx;
          inner_vertices = InnerVertices frag
      in Output_loop X frag inner_vertices ctx os)"

section \<open>The worker: \<^verbatim>\<open>grape/worker/parallel_worker.h\<close>\<close>

subsection \<open>State of a worker\<close>

text \<open>
  The members of \<^verbatim>\<open>ParallelWorker\<close> (lines 127 to 132; the trailing underscore of the
  source's names is written as the prefix \<open>m_\<close>). The application, the fragment, the
  context and the message manager are template parameters, so their states are type
  variables. \<^verbatim>\<open>context_\<close> is a shared pointer, null until the first query. Of \<^verbatim>\<open>CommSpec\<close>
  the worker reads \<^verbatim>\<open>comm()\<close> and \<^verbatim>\<open>worker_id()\<close>.
\<close>

record 'comm CommSpec =
  comm :: 'comm
  worker_id :: int

record ('app, 'frag, 'ctx, 'mm, 'comm) ParallelWorker =
  m_app :: 'app
  m_graph :: 'frag
  m_context :: "'ctx option"
  m_messages :: 'mm
  m_comm_spec :: "'comm CommSpec"

subsection \<open>\<^verbatim>\<open>ParallelWorker::Output\<close>\<close>

text \<open>
  Line 124: \<^verbatim>\<open>void Output(std::ostream& os) { context_->Output(os); }\<close>. The context's
  \<^verbatim>\<open>Output\<close> is the template parameter's; it may change the context and the stream, or
  fail. A null \<^verbatim>\<open>context_\<close> is a fault of its own.
\<close>

datatype 'e worker_fault = NullContext | ContextFault 'e

definition ParallelWorker_Output ::
  "('ctx \<Rightarrow> 'os \<Rightarrow> 'e + 'ctx \<times> 'os) \<Rightarrow> ('app, 'frag, 'ctx, 'mm, 'comm) ParallelWorker \<Rightarrow> 'os \<Rightarrow>
   'e worker_fault + ('app, 'frag, 'ctx, 'mm, 'comm) ParallelWorker \<times> 'os" where
  "ParallelWorker_Output Context_Output w os =
     (case m_context w of
        None \<Rightarrow> Inl NullContext
      | Some ctx \<Rightarrow>
          (case Context_Output ctx os of
             Inl e \<Rightarrow> Inl (ContextFault e)
           | Inr (ctx', os') \<Rightarrow> Inr (w\<lparr>m_context := Some ctx'\<rparr>, os')))"

subsection \<open>Integers on a stream\<close>

text \<open>
  \<^verbatim>\<open>operator<<\<close> of the standard library on an integer: its decimal digits, with a minus
  sign when negative.
\<close>

definition digit_char :: "nat \<Rightarrow> char" where
  "digit_char d = ''0123456789'' ! d"

fun put_nat :: "nat \<Rightarrow> string" where
  "put_nat n = (if n < 10 then [digit_char n] else put_nat (n div 10) @ [digit_char (n mod 10)])"

declare put_nat.simps [simp del]

definition put_int :: "int \<Rightarrow> string" where
  "put_int i = (if i < 0 then CHR ''-'' # put_nat (nat (- i)) else put_nat (nat i))"

subsection \<open>Collaborators and calls of \<^verbatim>\<open>ParallelWorker::Query\<close>\<close>

text \<open>
  What \<^verbatim>\<open>Query\<close> calls and the header does not define, as parameters: the default
  constructor of \<^verbatim>\<open>context_t\<close>, \<^verbatim>\<open>set_fragment\<close> and \<^verbatim>\<open>Init\<close> of the context, the methods of
  the message manager, \<^verbatim>\<open>PEval\<close> and \<^verbatim>\<open>IncEval\<close> of the application, and the constant
  \<^verbatim>\<open>kCoordinatorRank\<close>. Each takes the objects it is called on or is passed by reference
  and returns them as it leaves them; the fragment is only read. The state of the manager
  stands for the manager and the process group it talks to, so \<^verbatim>\<open>ToTerminate\<close> (a
  collective) is a function of it.
\<close>

record ('app, 'frag, 'ctx, 'mm, 'args) collaborators =
  new_context :: 'ctx
  set_fragment :: "'frag \<Rightarrow> 'ctx \<Rightarrow> 'ctx"
  Context_Init :: "'args \<Rightarrow> 'ctx \<Rightarrow> 'mm \<Rightarrow> 'ctx \<times> 'mm"
  Start :: "'mm \<Rightarrow> 'mm"
  StartARound :: "'mm \<Rightarrow> 'mm"
  FinishARound :: "'mm \<Rightarrow> 'mm"
  ToTerminate :: "'mm \<Rightarrow> bool \<times> 'mm"
  Finalize :: "'mm \<Rightarrow> 'mm"
  PEval :: "'app \<Rightarrow> 'frag \<Rightarrow> 'ctx \<Rightarrow> 'mm \<Rightarrow> 'app \<times> 'ctx \<times> 'mm"
  IncEval :: "'app \<Rightarrow> 'frag \<Rightarrow> 'ctx \<Rightarrow> 'mm \<Rightarrow> 'app \<times> 'ctx \<times> 'mm"
  kCoordinatorRank :: int

text \<open>
  The calls \<^verbatim>\<open>Query\<close> makes, recorded in the order it makes them. A call of \<^verbatim>\<open>ToTerminate\<close>
  is recorded with the value it returned.
\<close>

datatype ('comm, 'args) call =
    Call_MPI_Barrier 'comm
  | Call_make_shared
  | Call_set_fragment
  | Call_Context_Init 'args
  | Call_Start
  | Call_StartARound
  | Call_PEval
  | Call_FinishARound
  | Call_ToTerminate bool
  | Call_IncEval
  | Call_Finalize

subsection \<open>The state of a query\<close>

text \<open>
  While \<^verbatim>\<open>Query\<close> runs: the objects the worker's members point to or hold (\<^verbatim>\<open>*app_\<close>,
  \<^verbatim>\<open>*context_\<close>, \<^verbatim>\<open>messages_\<close>), the calls made so far and the lines handed to \<^verbatim>\<open>VLOG(1)\<close>
  so far, both oldest first. \<^verbatim>\<open>graph_\<close> and \<^verbatim>\<open>comm_spec_\<close> are only read and are passed
  along. The loop has the two locals \<^verbatim>\<open>round\<close> and \<^verbatim>\<open>step\<close> in addition; they are \<^verbatim>\<open>int\<close>,
  32 bits read as two's complement.
\<close>

record ('app, 'ctx, 'mm, 'comm, 'args) frame =
  the_app :: 'app
  the_context :: 'ctx
  the_messages :: 'mm
  calls :: "('comm, 'args) call list"
  vlog :: "string list"

record ('app, 'ctx, 'mm, 'comm, 'args) loop_state =
  round :: "32 word"
  step :: "32 word"
  fr :: "('app, 'ctx, 'mm, 'comm, 'args) frame"

text \<open>
  Fuel bounds the iterations of the \<^verbatim>\<open>while\<close> loop: \<open>Returned\<close> when the loop has been
  left, \<open>OutOfFuel\<close> with the state at the loop head when the fuel is used up.
\<close>

datatype 'a outcome = Returned (state_of: 'a) | OutOfFuel (state_of: 'a)

definition emit ::
  "('comm, 'args) call \<Rightarrow> ('app, 'ctx, 'mm, 'comm, 'args) frame \<Rightarrow> ('app, 'ctx, 'mm, 'comm, 'args) frame" where
  "emit c f = f\<lparr>calls := calls f @ [c]\<rparr>"

text \<open>
  \<^verbatim>\<open>if (comm_spec_.worker_id() == kCoordinatorRank) { VLOG(1) << line; }\<close>
\<close>

definition VLOG ::
  "('app, 'frag, 'ctx, 'mm, 'args) collaborators \<Rightarrow> 'comm CommSpec \<Rightarrow> string \<Rightarrow>
   ('app, 'ctx, 'mm, 'comm, 'args) frame \<Rightarrow> ('app, 'ctx, 'mm, 'comm, 'args) frame" where
  "VLOG C cs line f =
     (if worker_id cs = kCoordinatorRank C then f\<lparr>vlog := vlog f @ [line]\<rparr> else f)"

subsection \<open>The phases of \<^verbatim>\<open>Query\<close>\<close>

text \<open>Lines 80 to 87: the barrier, the new context, its \<^verbatim>\<open>Init\<close>.\<close>

definition Query_init ::
  "('app, 'frag, 'ctx, 'mm, 'args) collaborators \<Rightarrow> 'args \<Rightarrow>
   ('app, 'frag, 'ctx, 'mm, 'comm) ParallelWorker \<Rightarrow> ('app, 'ctx, 'mm, 'comm, 'args) frame" where
  "Query_init C args w =
     (let trace = [Call_MPI_Barrier (comm (m_comm_spec w))];
          c = new_context C;
          trace = trace @ [Call_make_shared];
          c = set_fragment C (m_graph w) c;
          trace = trace @ [Call_set_fragment];
          (c, m) = Context_Init C args c (m_messages w);
          trace = trace @ [Call_Context_Init args]
      in VLOG C (m_comm_spec w) ''[Coordinator]: Finished Init''
           \<lparr>the_app = m_app w, the_context = c, the_messages = m, calls = trace, vlog = []\<rparr>)"

text \<open>Lines 91 to 101: \<^verbatim>\<open>Start\<close> and the round of \<^verbatim>\<open>PEval\<close>.\<close>

definition PEval_round ::
  "('app, 'frag, 'ctx, 'mm, 'args) collaborators \<Rightarrow> 'frag \<Rightarrow> 'comm CommSpec \<Rightarrow>
   ('app, 'ctx, 'mm, 'comm, 'args) frame \<Rightarrow> ('app, 'ctx, 'mm, 'comm, 'args) frame" where
  "PEval_round C graph cs f =
     (let f = emit Call_Start (f\<lparr>the_messages := Start C (the_messages f)\<rparr>);
          f = emit Call_StartARound (f\<lparr>the_messages := StartARound C (the_messages f)\<rparr>);
          (a, c, m) = PEval C (the_app f) graph (the_context f) (the_messages f);
          f = emit Call_PEval (f\<lparr>the_app := a, the_context := c, the_messages := m\<rparr>);
          f = emit Call_FinishARound (f\<lparr>the_messages := FinishARound C (the_messages f)\<rparr>)
      in VLOG C cs ''[Coordinator]: Finished PEval'' f)"

text \<open>Lines 106 to 116: the body of the loop.\<close>

definition IncEval_round ::
  "('app, 'frag, 'ctx, 'mm, 'args) collaborators \<Rightarrow> 'frag \<Rightarrow> 'comm CommSpec \<Rightarrow>
   ('app, 'ctx, 'mm, 'comm, 'args) loop_state \<Rightarrow> ('app, 'ctx, 'mm, 'comm, 'args) loop_state" where
  "IncEval_round C graph cs s =
     (let s = s\<lparr>round := round s + 1\<rparr>;
          f = fr s;
          f = emit Call_StartARound (f\<lparr>the_messages := StartARound C (the_messages f)\<rparr>);
          (a, c, m) = IncEval C (the_app f) graph (the_context f) (the_messages f);
          f = emit Call_IncEval (f\<lparr>the_app := a, the_context := c, the_messages := m\<rparr>);
          f = emit Call_FinishARound (f\<lparr>the_messages := FinishARound C (the_messages f)\<rparr>);
          f = VLOG C cs (''[Coordinator]: Finished IncEval - '' @ put_int (sint (step s))) f
      in s\<lparr>step := step s + 1, fr := f\<rparr>)"

text \<open>
  Lines 105 to 117: \<^verbatim>\<open>while (!messages_.ToTerminate()) { ... }\<close>. The condition is
  evaluated, and recorded, before each iteration.
\<close>

fun IncEval_loop ::
  "nat \<Rightarrow> ('app, 'frag, 'ctx, 'mm, 'args) collaborators \<Rightarrow> 'frag \<Rightarrow> 'comm CommSpec \<Rightarrow>
   ('app, 'ctx, 'mm, 'comm, 'args) loop_state \<Rightarrow> ('app, 'ctx, 'mm, 'comm, 'args) loop_state outcome" where
  "IncEval_loop 0 C graph cs s = OutOfFuel s"
| "IncEval_loop (Suc fuel) C graph cs s =
     (let (stop, m) = ToTerminate C (the_messages (fr s));
          s = s\<lparr>fr := emit (Call_ToTerminate stop) ((fr s)\<lparr>the_messages := m\<rparr>)\<rparr>
      in if stop then Returned s
         else IncEval_loop fuel C graph cs (IncEval_round C graph cs s))"

text \<open>Lines 118 and 119: the barrier and \<^verbatim>\<open>Finalize\<close>.\<close>

definition Query_finish ::
  "('app, 'frag, 'ctx, 'mm, 'args) collaborators \<Rightarrow> 'comm CommSpec \<Rightarrow>
   ('app, 'ctx, 'mm, 'comm, 'args) frame \<Rightarrow> ('app, 'ctx, 'mm, 'comm, 'args) frame" where
  "Query_finish C cs f =
     (let f = emit (Call_MPI_Barrier (comm cs)) f
      in emit Call_Finalize (f\<lparr>the_messages := Finalize C (the_messages f)\<rparr>))"

text \<open>The worker as the frame leaves it: \<^verbatim>\<open>context_\<close> points to the frame's context.\<close>

definition write_back ::
  "('app, 'frag, 'ctx, 'mm, 'comm) ParallelWorker \<Rightarrow> ('app, 'ctx, 'mm, 'comm, 'args) frame \<Rightarrow>
   ('app, 'frag, 'ctx, 'mm, 'comm) ParallelWorker" where
  "write_back w f = w\<lparr>m_app := the_app f, m_context := Some (the_context f), m_messages := the_messages f\<rparr>"

text \<open>
  \<^verbatim>\<open>Query\<close>, lines 79 to 120. The result is the worker after the call together with the
  locals, the calls and the log lines of the call.
\<close>

definition Query ::
  "nat \<Rightarrow> ('app, 'frag, 'ctx, 'mm, 'args) collaborators \<Rightarrow> 'args \<Rightarrow>
   ('app, 'frag, 'ctx, 'mm, 'comm) ParallelWorker \<Rightarrow>
   (('app, 'frag, 'ctx, 'mm, 'comm) ParallelWorker \<times> ('app, 'ctx, 'mm, 'comm, 'args) loop_state) outcome" where
  "Query fuel C args w =
     (let f = Query_init C args w;
          round0 = 0;
          f = PEval_round C (m_graph w) (m_comm_spec w) f;
          step0 = 1
      in case IncEval_loop fuel C (m_graph w) (m_comm_spec w) \<lparr>round = round0, step = step0, fr = f\<rparr> of
           OutOfFuel s \<Rightarrow> OutOfFuel (write_back w (fr s), s)
         | Returned s \<Rightarrow>
             (let s = s\<lparr>fr := Query_finish C (m_comm_spec w) (fr s)\<rparr>
              in Returned (write_back w (fr s), s)))"

text \<open>The calls of a run, whether it has returned or not.\<close>

definition Query_calls ::
  "nat \<Rightarrow> ('app, 'frag, 'ctx, 'mm, 'args) collaborators \<Rightarrow> 'args \<Rightarrow>
   ('app, 'frag, 'ctx, 'mm, 'comm) ParallelWorker \<Rightarrow> ('comm, 'args) call list" where
  "Query_calls fuel C args w = calls (fr (snd (state_of (Query fuel C args w))))"

section \<open>Concrete inputs\<close>

subsection \<open>The output format scenario\<close>

text \<open>
  One fragment with the inner vertices 0, 1, 2 (local indices) of global ids 1, 2, 3 and
  no outer vertex; \<^verbatim>\<open>oid_t\<close> and \<^verbatim>\<open>cid_t\<close> are a signed 64-bit integer, \<^verbatim>\<open>vid_t\<close> an unsigned
  32-bit one; the buffer holds 10, 10 and 7.
\<close>

definition scenario_externals :: "(32 word, int, int, unit) externals" where
  "scenario_externals =
     \<lparr>vid_max = - 1, cid_max = 2 ^ 63 - 1, kSyncOnOuterVertex = (),
      oid_of_cid = (\<lambda>c. c), put_oid = put_int, put_cid = put_int\<rparr>"

definition scenario_fragment :: "(nat, int) Fragment" where
  "scenario_fragment = \<lparr>InnerVertices = [0, 1, 2], OuterVertices = [], GetId = (\<lambda>v. int v + 1)\<rparr>"

definition scenario_context :: "(nat, 32 word, int, int) WCCAutoContext" where
  "scenario_context =
     \<lparr>fragment = scenario_fragment, m_data = Map.empty, outer_vertices = [],
      local_comp_id = Map.empty, global_comp_id = [],
      global_cluster_id = \<lparr>data = [0 \<mapsto> 10, 1 \<mapsto> 10, 2 \<mapsto> 7], aggregator = merge\<rparr>\<rparr>"

definition scenario_worker ::
  "(unit, (nat, int) Fragment, (nat, 32 word, int, int) WCCAutoContext, unit, unit) ParallelWorker" where
  "scenario_worker =
     \<lparr>m_app = (), m_graph = scenario_fragment, m_context = Some scenario_context,
      m_messages = (), m_comm_spec = \<lparr>comm = (), worker_id = 0\<rparr>\<rparr>"

subsection \<open>A query of three rounds\<close>

text \<open>
  A small instance to run: the context is a countdown that \<^verbatim>\<open>Init\<close> sets to the query's
  argument; \<^verbatim>\<open>PEval\<close> and \<^verbatim>\<open>IncEval\<close> decrease it and send as many messages as it then
  shows; the manager's state is the number of messages sent in the round, and
  \<^verbatim>\<open>ToTerminate\<close> is true when that is zero.
\<close>

definition toy_collaborators :: "(unit, unit, nat, nat, nat) collaborators" where
  "toy_collaborators =
     \<lparr>new_context = 0,
      set_fragment = (\<lambda>g c. c),
      Context_Init = (\<lambda>args c m. (args, m)),
      Start = (\<lambda>m. m),
      StartARound = (\<lambda>m. 0),
      FinishARound = (\<lambda>m. m),
      ToTerminate = (\<lambda>m. (m = 0, m)),
      Finalize = (\<lambda>m. 0),
      PEval = (\<lambda>a g c m. (a, c - 1, c - 1)),
      IncEval = (\<lambda>a g c m. (a, c - 1, c - 1)),
      kCoordinatorRank = 0\<rparr>"

definition toy_worker :: "(unit, unit, nat, nat, unit) ParallelWorker" where
  "toy_worker =
     \<lparr>m_app = (), m_graph = (), m_context = None, m_messages = 0,
      m_comm_spec = \<lparr>comm = (), worker_id = 0\<rparr>\<rparr>"

subsection \<open>A query whose collaborators leave marks\<close>

text \<open>
  The context and the manager are the lists of the marks left on them: \<^verbatim>\<open>set_fragment\<close>
  leaves the fragment (a number), \<^verbatim>\<open>Init\<close> the query's argument on the context and 1 on the
  manager, the manager's methods 2 to 5, \<^verbatim>\<open>PEval\<close> the fragment plus 10 on the context and 6
  on the manager. The worker comes with a context \<open>[99]\<close> from before.
\<close>

definition marking_collaborators :: "(unit, nat, nat list, nat list, nat) collaborators" where
  "marking_collaborators =
     \<lparr>new_context = [],
      set_fragment = (\<lambda>g c. c @ [g]),
      Context_Init = (\<lambda>args c m. (c @ [args], m @ [1])),
      Start = (\<lambda>m. m @ [2]),
      StartARound = (\<lambda>m. m @ [3]),
      FinishARound = (\<lambda>m. m @ [4]),
      ToTerminate = (\<lambda>m. (True, m)),
      Finalize = (\<lambda>m. m @ [5]),
      PEval = (\<lambda>a g c m. (a, c @ [g + 10], m @ [6])),
      IncEval = (\<lambda>a g c m. (a, c @ [g + 20], m @ [7])),
      kCoordinatorRank = 0\<rparr>"

definition marking_worker :: "(unit, nat, nat list, nat list, unit) ParallelWorker" where
  "marking_worker =
     \<lparr>m_app = (), m_graph = 8, m_context = Some [99], m_messages = [0],
      m_comm_spec = \<lparr>comm = (), worker_id = 1\<rparr>\<rparr>"

subsection \<open>A query that never terminates\<close>

text \<open>Collaborators that do nothing, with a \<^verbatim>\<open>ToTerminate\<close> that always returns false.\<close>

definition forever_collaborators :: "(unit, unit, unit, unit, unit) collaborators" where
  "forever_collaborators =
     \<lparr>new_context = (),
      set_fragment = (\<lambda>g c. c),
      Context_Init = (\<lambda>args c m. (c, m)),
      Start = (\<lambda>m. m),
      StartARound = (\<lambda>m. m),
      FinishARound = (\<lambda>m. m),
      ToTerminate = (\<lambda>m. (False, m)),
      Finalize = (\<lambda>m. m),
      PEval = (\<lambda>a g c m. (a, c, m)),
      IncEval = (\<lambda>a g c m. (a, c, m)),
      kCoordinatorRank = 0\<rparr>"

definition forever_worker :: "(unit, unit, unit, unit, unit) ParallelWorker" where
  "forever_worker =
     \<lparr>m_app = (), m_graph = (), m_context = None, m_messages = (),
      m_comm_spec = \<lparr>comm = (), worker_id = 1\<rparr>\<rparr>"

section \<open>Notions used in the proofs\<close>

text \<open>The line written for a vertex whose buffer entry is \<open>y\<close>.\<close>

definition output_line ::
  "('vid, 'oid, 'cid, 'strategy) externals \<Rightarrow> ('v, 'oid) Fragment \<Rightarrow> 'v \<Rightarrow> 'cid \<Rightarrow> string" where
  "output_line X frag v y = put_oid X (GetId frag v) @ '' '' @ put_cid X y @ endl"

text \<open>The calls of \<open>k\<close> iterations of the loop.\<close>

definition IncEval_rounds :: "nat \<Rightarrow> ('comm, 'args) call list" where
  "IncEval_rounds k =
     concat (replicate k [Call_ToTerminate False, Call_StartARound, Call_IncEval, Call_FinishARound])"

text \<open>The calls of a whole run.\<close>

definition Query_prologue :: "'comm \<Rightarrow> 'args \<Rightarrow> ('comm, 'args) call list" where
  "Query_prologue c args =
     [Call_MPI_Barrier c, Call_make_shared, Call_set_fragment, Call_Context_Init args,
      Call_Start, Call_StartARound, Call_PEval, Call_FinishARound]"

definition Query_epilogue :: "'comm \<Rightarrow> ('comm, 'args) call list" where
  "Query_epilogue c = [Call_ToTerminate True, Call_MPI_Barrier c, Call_Finalize]"

text \<open>
  What follows the rounds in the calls of a run: the three last calls when it has
  returned, nothing at a loop head.
\<close>

definition Query_ending :: "'a outcome \<Rightarrow> 'comm \<Rightarrow> ('comm, 'args) call list" where
  "Query_ending r c = (case r of Returned _ \<Rightarrow> Query_epilogue c | OutOfFuel _ \<Rightarrow> [])"

text \<open>
  Notions for the proofs about the calls of a run. A list of calls is \<open>bracketed\<close> when
  each \<^verbatim>\<open>PEval\<close> and \<^verbatim>\<open>IncEval\<close> in it stands between \<^verbatim>\<open>StartARound\<close> and \<^verbatim>\<open>FinishARound\<close>;
  \<open>round_shaped\<close> when each \<^verbatim>\<open>IncEval\<close> is the second call after a \<^verbatim>\<open>ToTerminate\<close> that
  returned false and each such \<^verbatim>\<open>ToTerminate\<close> is followed by a whole round; \<open>consulted\<close>
  when a \<^verbatim>\<open>FinishARound\<close> that is not the last call is followed by \<^verbatim>\<open>ToTerminate\<close>.
\<close>

definition bracketed :: "('comm, 'args) call list \<Rightarrow> bool" where
  "bracketed t \<longleftrightarrow>
     (\<forall>i<length t. t ! i = Call_PEval \<or> t ! i = Call_IncEval \<longrightarrow>
        0 < i \<and> t ! (i - 1) = Call_StartARound \<and> Suc i < length t \<and> t ! Suc i = Call_FinishARound)"

definition round_shaped :: "('comm, 'args) call list \<Rightarrow> bool" where
  "round_shaped t \<longleftrightarrow>
     (\<forall>i<length t.
        (t ! i = Call_IncEval \<longrightarrow> 2 \<le> i \<and> t ! (i - 2) = Call_ToTerminate False) \<and>
        (t ! i = Call_ToTerminate False \<longrightarrow>
           i + 3 < length t \<and> t ! (i + 1) = Call_StartARound \<and> t ! (i + 2) = Call_IncEval \<and>
           t ! (i + 3) = Call_FinishARound))"

definition consulted :: "('comm, 'args) call list \<Rightarrow> bool" where
  "consulted t \<longleftrightarrow>
     (\<forall>i. Suc i < length t \<and> t ! i = Call_FinishARound \<longrightarrow> (\<exists>b. t ! Suc i = Call_ToTerminate b))"

text \<open>
  What a loop state shows apart from the two counters and the log: the objects and the
  calls.
\<close>

definition visible ::
  "('app, 'ctx, 'mm, 'comm, 'args) loop_state \<Rightarrow> 'app \<times> 'ctx \<times> 'mm \<times> ('comm, 'args) call list" where
  "visible s = (the_app (fr s), the_context (fr s), the_messages (fr s), calls (fr s))"

section \<open>Properties of the merge function\<close>

lemma merge_value: "snd (merge c r) = min c r"
  by (auto simp: merge_def min_def)

lemma merge_flag: "fst (merge c r) \<longleftrightarrow> r < c"
  by (simp add: merge_def)

lemma merge_all_Nil: "merge_all c [] = c"
  by (simp add: merge_all_def)

lemma merge_all_Cons: "merge_all c (r # rs) = merge_all (min c r) rs"
  by (simp add: merge_all_def merge_value)

lemma merge_all_Min: "merge_all c rs = Min (insert c (set rs))"
proof (induction rs arbitrary: c)
  case Nil
  show ?case by (simp add: merge_all_Nil)
next
  case (Cons r rs)
  have "merge_all c (r # rs) = Min (insert (min c r) (set rs))"
    by (simp add: merge_all_Cons Cons.IH)
  also have "\<dots> = Min (insert c (insert r (set rs)))"
  proof (cases "set rs = {}")
    case True
    then show ?thesis by (simp add: min.commute)
  next
    case False
    then show ?thesis by (simp add: min.assoc)
  qed
  finally show ?case by (simp add: insert_commute)
qed

text \<open>
  C3. For every current value \<open>c\<close> and incoming value \<open>r\<close>: the call changes the current
  value exactly when \<open>r < c\<close>; afterwards the current value is \<open>min c r\<close>; and the flag
  returned is true exactly when the value changed.
\<close>

theorem C3_merge_min_and_flag:
  "(snd (merge c r) \<noteq> c \<longleftrightarrow> r < c) \<and>
   snd (merge c r) = min c r \<and>
   (fst (merge c r) \<longleftrightarrow> snd (merge c r) \<noteq> c)"
  by (auto simp: merge_def min_def)

text \<open>
  C4. Folding merge over a list of incoming values ends at the minimum of the initial
  value and all incoming values, and every permutation of the list ends at the same
  value.
\<close>

theorem C4_merge_order_independent:
  "merge_all c rs = Min (insert c (set rs)) \<and>
   (\<forall>rs'. mset rs' = mset rs \<longrightarrow> merge_all c rs' = merge_all c rs)"
proof (intro conjI allI impI)
  show "merge_all c rs = Min (insert c (set rs))"
    by (rule merge_all_Min)
next
  fix rs' :: "'a list"
  assume "mset rs' = mset rs"
  then have "set rs' = set rs"
    by (rule mset_eq_setD)
  then show "merge_all c rs' = merge_all c rs"
    by (simp add: merge_all_Min)
qed

theorem C4_merge_order_independent_witness:
  "merge_all (9::nat) [5, 7, 3] = Min (insert 9 (set [5, 7, 3])) \<and>
   mset [3, 5, 7] = mset [5, 7, 3::nat] \<and>
   merge_all (9::nat) [3, 5, 7] = merge_all 9 [5, 7, 3] \<and>
   merge_all (9::nat) [5, 7, 3] = 3"
proof -
  have p: "mset [3, 5, 7] = mset [5, 7, 3::nat]"
    by simp
  have v: "merge_all (9::nat) [5, 7, 3] = 3"
    by (simp add: merge_all_def merge_def)
  from C4_merge_order_independent [of "9::nat" "[5, 7, 3]"] p v
  show ?thesis by metis
qed

text \<open>
  C5. After \<open>merge\<close> has been applied once with a value \<open>v\<close>, applying it again with the
  same \<open>v\<close> leaves the current value unchanged and returns false.
\<close>

theorem C5_merge_idempotent:
  "snd (merge (snd (merge c v)) v) = snd (merge c v) \<and>
   \<not> fst (merge (snd (merge c v)) v)"
  by (auto simp: merge_def)

section \<open>Properties of the WCC context\<close>

subsection \<open>\<^verbatim>\<open>Init\<close>\<close>

lemma Init_global_cluster_id:
  "global_cluster_id (fst (WCCAutoContext_Init X ctx messages)) =
     SyncBuffer_Init (Vertices (fragment ctx)) (cid_max X) merge"
  by (simp add: WCCAutoContext_Init_def Let_def)

lemma Init_local_comp_id:
  "local_comp_id (fst (WCCAutoContext_Init X ctx messages)) =
     VertexArray_Init (InnerVertices (fragment ctx)) (vid_max X)"
  by (simp add: WCCAutoContext_Init_def Let_def)

lemma Init_registered:
  "registered (snd (WCCAutoContext_Init X ctx messages)) =
     registered messages @
       [(fragment ctx, SyncBuffer_Init (Vertices (fragment ctx)) (cid_max X) merge,
         kSyncOnOuterVertex X)]"
  by (simp add: WCCAutoContext_Init_def Let_def RegisterSyncBuffer_def)

text \<open>
  C6. After \<^verbatim>\<open>Init\<close>, \<^verbatim>\<open>global_cluster_id\<close> has an entry exactly for the inner and the
  outer vertices, each entry the maximal value of \<^verbatim>\<open>cid_t\<close>, and carries the merge function;
  \<^verbatim>\<open>local_comp_id\<close> has an entry exactly for the inner vertices, each the maximal value of
  \<^verbatim>\<open>vid_t\<close>; and the manager has one more registration, the last one, of that buffer under
  \<^verbatim>\<open>kSyncOnOuterVertex\<close>.
\<close>

theorem C6_Init_buffers:
  "data (global_cluster_id (fst (WCCAutoContext_Init X ctx messages))) v =
     (if v \<in> set (InnerVertices (fragment ctx)) \<union> set (OuterVertices (fragment ctx))
      then Some (cid_max X) else None) \<and>
   aggregator (global_cluster_id (fst (WCCAutoContext_Init X ctx messages))) = merge \<and>
   local_comp_id (fst (WCCAutoContext_Init X ctx messages)) v =
     (if v \<in> set (InnerVertices (fragment ctx)) then Some (vid_max X) else None) \<and>
   registered (snd (WCCAutoContext_Init X ctx messages)) =
     registered messages @
       [(fragment ctx, global_cluster_id (fst (WCCAutoContext_Init X ctx messages)),
         kSyncOnOuterVertex X)]"
  by (simp add: Init_global_cluster_id Init_local_comp_id Init_registered
      SyncBuffer_Init_def VertexArray_Init_def Vertices_def)

subsection \<open>\<^verbatim>\<open>Output\<close>\<close>

lemma global_cluster_id_SetValue:
  "global_cluster_id (SetValue v x ctx) = global_cluster_id ctx"
  by (simp add: SetValue_def)

lemma Output_loop_Cons:
  "data (global_cluster_id ctx) v = Some x \<Longrightarrow>
   Output_loop X frag (v # vs) ctx os =
     Output_loop X frag vs (SetValue v (oid_of_cid X x) ctx) (os @ output_line X frag v x)"
  by (simp add: Output_loop.simps(2) GetValue_def Let_def global_cluster_id_SetValue
      output_line_def)

lemma Output_loop_Cons_None:
  "data (global_cluster_id ctx) v = None \<Longrightarrow>
   Output_loop X frag (v # vs) ctx os = Inl (OutOfRange v)"
  by (simp add: Output_loop.simps(2) GetValue_def)

lemma Output_loop_defined:
  "Output_loop X frag vs ctx os = Inr r \<Longrightarrow> set vs \<subseteq> dom (data (global_cluster_id ctx))"
proof (induction vs arbitrary: ctx os)
  case Nil
  show ?case by simp
next
  case (Cons v vs)
  from Cons.prems obtain x where x: "data (global_cluster_id ctx) v = Some x"
    by (cases "data (global_cluster_id ctx) v") (simp_all add: Output_loop_Cons_None)
  with Cons.prems have
    "Output_loop X frag vs (SetValue v (oid_of_cid X x) ctx) (os @ output_line X frag v x) = Inr r"
    by (simp add: Output_loop_Cons)
  from Cons.IH [OF this] have "set vs \<subseteq> dom (data (global_cluster_id ctx))"
    by (simp add: global_cluster_id_SetValue)
  with x show ?case by auto
qed

lemma Output_loop_result:
  assumes "\<forall>v\<in>set vs. data (global_cluster_id ctx) v = Some (val v)"
  shows "Output_loop X frag vs ctx os =
    Inr (ctx\<lparr>m_data := (\<lambda>u. if u \<in> set vs then Some (oid_of_cid X (val u)) else m_data ctx u)\<rparr>,
         os @ concat (map (\<lambda>v. output_line X frag v (val v)) vs))"
  using assms
proof (induction vs arbitrary: ctx os)
  case Nil
  show ?case by simp
next
  case (Cons v vs)
  let ?ctx = "SetValue v (oid_of_cid X (val v)) ctx"
  have v: "data (global_cluster_id ctx) v = Some (val v)"
    using Cons.prems by simp
  have "\<forall>u\<in>set vs. data (global_cluster_id ?ctx) u = Some (val u)"
    using Cons.prems by (simp add: SetValue_def)
  from Cons.IH [OF this] have IH:
    "Output_loop X frag vs ?ctx os' =
       Inr (?ctx\<lparr>m_data := (\<lambda>u. if u \<in> set vs then Some (oid_of_cid X (val u)) else m_data ?ctx u)\<rparr>,
            os' @ concat (map (\<lambda>v. output_line X frag v (val v)) vs))" for os'
    by simp
  have upd: "?ctx\<lparr>m_data := (\<lambda>u. if u \<in> set vs then Some (oid_of_cid X (val u)) else m_data ?ctx u)\<rparr> =
      ctx\<lparr>m_data := (\<lambda>u. if u \<in> set (v # vs) then Some (oid_of_cid X (val u)) else m_data ctx u)\<rparr>"
    by (auto simp: SetValue_def fun_eq_iff)
  have "Output_loop X frag (v # vs) ctx os =
      Output_loop X frag vs ?ctx (os @ output_line X frag v (val v))"
    using v by (rule Output_loop_Cons)
  also have "\<dots> =
      Inr (ctx\<lparr>m_data := (\<lambda>u. if u \<in> set (v # vs) then Some (oid_of_cid X (val u)) else m_data ctx u)\<rparr>,
           (os @ output_line X frag v (val v)) @ concat (map (\<lambda>v. output_line X frag v (val v)) vs))"
    by (simp only: IH upd)
  finally show ?case by simp
qed

lemma Output_result:
  assumes "\<forall>v\<in>set (InnerVertices (fragment ctx)). data (global_cluster_id ctx) v = Some (val v)"
  shows "WCCAutoContext_Output X ctx os =
    Inr (ctx\<lparr>m_data := (\<lambda>u. if u \<in> set (InnerVertices (fragment ctx))
                              then Some (oid_of_cid X (val u)) else m_data ctx u)\<rparr>,
         os @ concat (map (\<lambda>v. output_line X (fragment ctx) v (val v)) (InnerVertices (fragment ctx))))"
  unfolding WCCAutoContext_Output_def Let_def
  by (rule Output_loop_result [OF assms])

lemma scenario_put_int: "put_int 1 = ''1''" "put_int 2 = ''2''" "put_int 3 = ''3''"
  "put_int 7 = ''7''" "put_int 10 = ''10''"
  by (simp_all add: put_int_def put_nat.simps digit_char_def)

lemma scenario_lines:
  "concat (map (\<lambda>v. put_oid scenario_externals (GetId (fragment scenario_context) v) @ '' '' @
                      put_cid scenario_externals (if v = 2 then 7 else 10) @ endl)
               (InnerVertices (fragment scenario_context))) =
   ''1 10'' @ endl @ ''2 10'' @ endl @ ''3 7'' @ endl"
  by (simp add: scenario_context_def scenario_fragment_def scenario_externals_def
      scenario_put_int)

lemma scenario_entries:
  "\<forall>v\<in>set (InnerVertices (fragment scenario_context)).
      data (global_cluster_id scenario_context) v = Some (if v = 2 then 7 else 10)"
  by (simp add: scenario_context_def scenario_fragment_def)

text \<open>
  C7. \<^verbatim>\<open>ParallelWorker::Output\<close> returns what the context's \<^verbatim>\<open>Output\<close> returns. When every
  inner vertex has a buffer entry, the context's \<^verbatim>\<open>Output\<close> appends to the stream one line
  per inner vertex, in the order of \<^verbatim>\<open>InnerVertices()\<close>: the vertex's global id, one space,
  the vertex's buffer value, end of line.
\<close>

theorem C7_Output_lines:
  assumes "m_context w = Some ctx"
    and "\<forall>v\<in>set (InnerVertices (fragment ctx)). data (global_cluster_id ctx) v = Some (val v)"
  shows "\<exists>ctx'.
    WCCAutoContext_Output X ctx os =
      Inr (ctx', os @ concat (map (\<lambda>v. put_oid X (GetId (fragment ctx) v) @ '' '' @
                                        put_cid X (val v) @ endl)
                                 (InnerVertices (fragment ctx)))) \<and>
    ParallelWorker_Output (WCCAutoContext_Output X) w os =
      Inr (w\<lparr>m_context := Some ctx'\<rparr>,
           os @ concat (map (\<lambda>v. put_oid X (GetId (fragment ctx) v) @ '' '' @
                                        put_cid X (val v) @ endl)
                                 (InnerVertices (fragment ctx))))"
  using assms(1) Output_result [OF assms(2), of X os]
  by (simp add: ParallelWorker_Output_def output_line_def)

theorem C7_Output_lines_witness:
  "\<exists>ctx'. ParallelWorker_Output (WCCAutoContext_Output scenario_externals) scenario_worker [] =
     Inr (scenario_worker\<lparr>m_context := Some ctx'\<rparr>,
          ''1 10'' @ endl @ ''2 10'' @ endl @ ''3 7'' @ endl)"
proof -
  have c: "m_context scenario_worker = Some scenario_context"
    by (simp add: scenario_worker_def)
  from C7_Output_lines [OF c scenario_entries, of scenario_externals "[]"]
  show ?thesis
    unfolding scenario_lines append_Nil by blast
qed

text \<open>
  C10. When \<^verbatim>\<open>Output\<close> returns, the context differs from the one it started from only in
  the inherited per-vertex data, where each inner vertex now has its buffer value; in
  particular \<^verbatim>\<open>global_cluster_id\<close> is the same. A second call writes the same text as the
  first and leaves the context as the first call left it.
\<close>

theorem C10_Output_frame:
  assumes "WCCAutoContext_Output X ctx os = Inr (ctx', os')"
  shows "global_cluster_id ctx' = global_cluster_id ctx \<and>
    ctx' = ctx\<lparr>m_data := (\<lambda>u. if u \<in> set (InnerVertices (fragment ctx))
                               then map_option (oid_of_cid X) (data (global_cluster_id ctx) u)
                               else m_data ctx u)\<rparr> \<and>
    (\<exists>written. os' = os @ written \<and>
       (\<forall>os2. WCCAutoContext_Output X ctx' os2 = Inr (ctx', os2 @ written)))"
proof -
  define val where "val = (\<lambda>v. the (data (global_cluster_id ctx) v))"
  define inner where "inner = InnerVertices (fragment ctx)"
  define written where "written = concat (map (\<lambda>v. output_line X (fragment ctx) v (val v)) inner)"
  have "set inner \<subseteq> dom (data (global_cluster_id ctx))"
    using assms unfolding WCCAutoContext_Output_def Let_def inner_def
    by (rule Output_loop_defined)
  then have val: "\<forall>v\<in>set (InnerVertices (fragment ctx)). data (global_cluster_id ctx) v = Some (val v)"
    by (auto simp: val_def inner_def)
  from Output_result [OF val, of X os] assms
  have ctx': "ctx' = ctx\<lparr>m_data := (\<lambda>u. if u \<in> set inner
                              then Some (oid_of_cid X (val u)) else m_data ctx u)\<rparr>"
    and os': "os' = os @ written"
    by (simp_all add: inner_def written_def)
  have frag: "fragment ctx' = fragment ctx" and buf: "global_cluster_id ctx' = global_cluster_id ctx"
    by (simp_all add: ctx')
  have eq: "ctx' = ctx\<lparr>m_data := (\<lambda>u. if u \<in> set (InnerVertices (fragment ctx))
                               then map_option (oid_of_cid X) (data (global_cluster_id ctx) u)
                               else m_data ctx u)\<rparr>"
    using val by (simp add: ctx' inner_def fun_eq_iff)
  have val': "\<forall>v\<in>set (InnerVertices (fragment ctx')). data (global_cluster_id ctx') v = Some (val v)"
    using val by (simp add: frag buf)
  have again: "WCCAutoContext_Output X ctx' os2 = Inr (ctx', os2 @ written)" for os2
  proof -
    have "ctx'\<lparr>m_data := (\<lambda>u. if u \<in> set (InnerVertices (fragment ctx'))
                              then Some (oid_of_cid X (val u)) else m_data ctx' u)\<rparr> = ctx'"
      by (simp add: ctx' inner_def fun_eq_iff)
    with Output_result [OF val', of X os2] show ?thesis
      by (simp add: frag written_def inner_def)
  qed
  from buf eq os' again show ?thesis by blast
qed

theorem C10_Output_frame_witness:
  "\<exists>ctx'. WCCAutoContext_Output scenario_externals scenario_context [] =
       Inr (ctx', ''1 10'' @ endl @ ''2 10'' @ endl @ ''3 7'' @ endl) \<and>
     global_cluster_id ctx' = global_cluster_id scenario_context \<and>
     WCCAutoContext_Output scenario_externals ctx' [] =
       Inr (ctx', ''1 10'' @ endl @ ''2 10'' @ endl @ ''3 7'' @ endl)"
proof -
  from Output_result [OF scenario_entries, of scenario_externals "[]"] obtain ctx' where
    r: "WCCAutoContext_Output scenario_externals scenario_context [] =
       Inr (ctx', ''1 10'' @ endl @ ''2 10'' @ endl @ ''3 7'' @ endl)"
    unfolding output_line_def scenario_lines append_Nil by blast
  from C10_Output_frame [OF r] obtain written where
    same: "global_cluster_id ctx' = global_cluster_id scenario_context"
    and w: "''1 10'' @ endl @ ''2 10'' @ endl @ ''3 7'' @ endl = [] @ written"
    and again: "WCCAutoContext_Output scenario_externals ctx' [] = Inr (ctx', [] @ written)"
    by blast
  from w have "written = ''1 10'' @ endl @ ''2 10'' @ endl @ ''3 7'' @ endl"
    by (simp only: append_Nil)
  with again have "WCCAutoContext_Output scenario_externals ctx' [] =
       Inr (ctx', ''1 10'' @ endl @ ''2 10'' @ endl @ ''3 7'' @ endl)"
    by (simp only: append_Nil)
  with r same show ?thesis by blast
qed

section \<open>Properties of \<^verbatim>\<open>Query\<close>\<close>

subsection \<open>The calls of each phase\<close>

lemma emit_simps [simp]:
  "calls (emit c f) = calls f @ [c]"
  "the_app (emit c f) = the_app f"
  "the_context (emit c f) = the_context f"
  "the_messages (emit c f) = the_messages f"
  "vlog (emit c f) = vlog f"
  by (simp_all add: emit_def)

lemma VLOG_simps [simp]:
  "calls (VLOG C cs l f) = calls f"
  "the_app (VLOG C cs l f) = the_app f"
  "the_context (VLOG C cs l f) = the_context f"
  "the_messages (VLOG C cs l f) = the_messages f"
  by (simp_all add: VLOG_def)

lemma Query_init_calls:
  "calls (Query_init C args w) =
     [Call_MPI_Barrier (comm (m_comm_spec w)), Call_make_shared, Call_set_fragment,
      Call_Context_Init args]"
  by (simp add: Query_init_def Let_def split: prod.split)

lemma PEval_round_calls:
  "calls (PEval_round C graph cs f) =
     calls f @ [Call_Start, Call_StartARound, Call_PEval, Call_FinishARound]"
  by (simp add: PEval_round_def Let_def split: prod.split)

lemma IncEval_round_calls:
  "calls (fr (IncEval_round C graph cs s)) =
     calls (fr s) @ [Call_StartARound, Call_IncEval, Call_FinishARound]"
  by (simp add: IncEval_round_def Let_def split: prod.split)

lemma IncEval_round_round: "round (IncEval_round C graph cs s) = round s + 1"
  by (simp add: IncEval_round_def Let_def split: prod.split)

lemma IncEval_round_step: "step (IncEval_round C graph cs s) = step s + 1"
  by (simp add: IncEval_round_def Let_def split: prod.split)

lemma Query_finish_calls:
  "calls (Query_finish C cs f) = calls f @ [Call_MPI_Barrier (comm cs), Call_Finalize]"
  by (simp add: Query_finish_def Let_def)

lemma IncEval_rounds_0 [simp]: "IncEval_rounds 0 = []"
  by (simp add: IncEval_rounds_def)

lemma IncEval_rounds_Suc:
  "IncEval_rounds (Suc k) =
     [Call_ToTerminate False, Call_StartARound, Call_IncEval, Call_FinishARound] @ IncEval_rounds k"
  by (simp add: IncEval_rounds_def)

lemma IncEval_loop_OutOfFuel:
  "IncEval_loop fuel C graph cs s = OutOfFuel s' \<Longrightarrow>
   calls (fr s') = calls (fr s) @ IncEval_rounds fuel \<and>
   round s' = round s + of_nat fuel \<and> step s' = step s + of_nat fuel"
proof (induction fuel arbitrary: s)
  case 0
  then show ?case by simp
next
  case (Suc fuel)
  obtain stop m where tt: "ToTerminate C (the_messages (fr s)) = (stop, m)"
    by (cases "ToTerminate C (the_messages (fr s))")
  define s1 where "s1 = s\<lparr>fr := emit (Call_ToTerminate stop) ((fr s)\<lparr>the_messages := m\<rparr>)\<rparr>"
  from Suc.prems tt have stop: "\<not> stop"
    and rest: "IncEval_loop fuel C graph cs (IncEval_round C graph cs s1) = OutOfFuel s'"
    by (auto simp: s1_def Let_def split: if_splits)
  from Suc.IH [OF rest] stop show ?case
    by (simp add: IncEval_round_calls IncEval_round_round IncEval_round_step s1_def
        IncEval_rounds_Suc)
qed

lemma IncEval_loop_Returned:
  "IncEval_loop fuel C graph cs s = Returned s' \<Longrightarrow>
   \<exists>k<fuel. calls (fr s') = calls (fr s) @ IncEval_rounds k @ [Call_ToTerminate True] \<and>
     round s' = round s + of_nat k \<and> step s' = step s + of_nat k"
proof (induction fuel arbitrary: s)
  case 0
  then show ?case by simp
next
  case (Suc fuel)
  obtain stop m where tt: "ToTerminate C (the_messages (fr s)) = (stop, m)"
    by (cases "ToTerminate C (the_messages (fr s))")
  define s1 where "s1 = s\<lparr>fr := emit (Call_ToTerminate stop) ((fr s)\<lparr>the_messages := m\<rparr>)\<rparr>"
  show ?case
  proof (cases stop)
    case True
    with Suc.prems tt have "s' = s1"
      by (simp add: s1_def)
    with True have "calls (fr s') = calls (fr s) @ IncEval_rounds 0 @ [Call_ToTerminate True] \<and>
        round s' = round s + of_nat 0 \<and> step s' = step s + of_nat 0"
      by (simp add: s1_def)
    then show ?thesis by blast
  next
    case False
    with Suc.prems tt
    have rest: "IncEval_loop fuel C graph cs (IncEval_round C graph cs s1) = Returned s'"
      by (simp add: s1_def)
    from Suc.IH [OF rest] obtain k where k: "k < fuel"
      and c: "calls (fr s') = calls (fr (IncEval_round C graph cs s1)) @
                IncEval_rounds k @ [Call_ToTerminate True]"
      and r: "round s' = round (IncEval_round C graph cs s1) + of_nat k"
      and st: "step s' = step (IncEval_round C graph cs s1) + of_nat k"
      by blast
    from c r st False have
      "calls (fr s') = calls (fr s) @ IncEval_rounds (Suc k) @ [Call_ToTerminate True] \<and>
       round s' = round s + of_nat (Suc k) \<and> step s' = step s + of_nat (Suc k)"
      by (simp add: IncEval_round_calls IncEval_round_round IncEval_round_step s1_def
          IncEval_rounds_Suc)
    with k show ?thesis by (metis Suc_less_eq)
  qed
qed

lemma Query_OutOfFuel:
  assumes "Query fuel C args w = OutOfFuel r"
  shows "calls (fr (snd r)) = Query_prologue (comm (m_comm_spec w)) args @ IncEval_rounds fuel"
    and "round (snd r) = of_nat fuel"
    and "step (snd r) = 1 + of_nat fuel"
proof -
  let ?s = "\<lparr>round = 0, step = 1,
    fr = PEval_round C (m_graph w) (m_comm_spec w) (Query_init C args w)\<rparr>"
  from assms obtain s where l: "IncEval_loop fuel C (m_graph w) (m_comm_spec w) ?s = OutOfFuel s"
    and r: "r = (write_back w (fr s), s)"
    by (auto simp: Query_def Let_def split: outcome.splits)
  from IncEval_loop_OutOfFuel [OF l] r
  show "calls (fr (snd r)) = Query_prologue (comm (m_comm_spec w)) args @ IncEval_rounds fuel"
    and "round (snd r) = of_nat fuel" and "step (snd r) = 1 + of_nat fuel"
    by (simp_all add: PEval_round_calls Query_init_calls Query_prologue_def)
qed

lemma Query_Returned:
  assumes "Query fuel C args w = Returned r"
  shows "\<exists>k<fuel.
    calls (fr (snd r)) = Query_prologue (comm (m_comm_spec w)) args @ IncEval_rounds k @
      Query_epilogue (comm (m_comm_spec w)) \<and>
    round (snd r) = of_nat k \<and> step (snd r) = 1 + of_nat k"
proof -
  let ?s = "\<lparr>round = 0, step = 1,
    fr = PEval_round C (m_graph w) (m_comm_spec w) (Query_init C args w)\<rparr>"
  from assms obtain s where l: "IncEval_loop fuel C (m_graph w) (m_comm_spec w) ?s = Returned s"
    and r: "r = (write_back w (Query_finish C (m_comm_spec w) (fr s)),
                 s\<lparr>fr := Query_finish C (m_comm_spec w) (fr s)\<rparr>)"
    by (auto simp: Query_def Let_def split: outcome.splits)
  from IncEval_loop_Returned [OF l] obtain k where "k < fuel"
    and "calls (fr s) = calls (fr ?s) @ IncEval_rounds k @ [Call_ToTerminate True]"
    and "round s = round ?s + of_nat k" and "step s = step ?s + of_nat k"
    by blast
  with r have "k < fuel \<and>
    calls (fr (snd r)) = Query_prologue (comm (m_comm_spec w)) args @ IncEval_rounds k @
      Query_epilogue (comm (m_comm_spec w)) \<and>
    round (snd r) = of_nat k \<and> step (snd r) = 1 + of_nat k"
    by (simp add: PEval_round_calls Query_init_calls Query_prologue_def Query_epilogue_def
        Query_finish_calls)
  then show ?thesis by blast
qed

lemma Query_calls_shape:
  "\<exists>k\<le>fuel.
     Query_calls fuel C args w =
       Query_prologue (comm (m_comm_spec w)) args @ IncEval_rounds k @
       Query_ending (Query fuel C args w) (comm (m_comm_spec w)) \<and>
     round (snd (state_of (Query fuel C args w))) = of_nat k \<and>
     step (snd (state_of (Query fuel C args w))) = 1 + of_nat k"
proof (cases "Query fuel C args w")
  case (Returned r)
  from Query_Returned [OF this] Returned show ?thesis
    by (auto simp: Query_calls_def Query_ending_def intro: less_imp_le)
next
  case (OutOfFuel r)
  from Query_OutOfFuel [OF this] OutOfFuel show ?thesis
    by (auto simp: Query_calls_def Query_ending_def)
qed

lemma Query_ending_cases:
  "Query_ending r c = [] \<or> Query_ending r c = Query_epilogue c"
  by (cases r) (simp_all add: Query_ending_def)

subsection \<open>Fuel\<close>

text \<open>
  Fuel only bounds the run: with more fuel the loop goes on from the loop head where the
  fuel ran out, a run that has returned returns the same with more fuel, and
  (\<open>Query_OutOfFuel\<close>) a run is out of fuel only after as many rounds of \<^verbatim>\<open>IncEval\<close> as it
  had fuel, \<^verbatim>\<open>ToTerminate\<close> having returned false before each.
\<close>

lemma IncEval_loop_add:
  "IncEval_loop (fuel + extra) C graph cs s =
     (case IncEval_loop fuel C graph cs s of
        Returned s' \<Rightarrow> Returned s'
      | OutOfFuel s' \<Rightarrow> IncEval_loop extra C graph cs s')"
proof (induction fuel arbitrary: s)
  case 0
  show ?case by simp
next
  case (Suc fuel)
  obtain stop m where tt: "ToTerminate C (the_messages (fr s)) = (stop, m)"
    by (cases "ToTerminate C (the_messages (fr s))")
  show ?case
  proof (cases stop)
    case True
    with tt show ?thesis by simp
  next
    case False
    with tt Suc.IH show ?thesis by simp
  qed
qed

lemma IncEval_loop_fuel:
  "IncEval_loop fuel C graph cs s = Returned s' \<Longrightarrow>
   IncEval_loop (fuel + extra) C graph cs s = Returned s'"
  by (simp add: IncEval_loop_add)

lemma Query_fuel:
  assumes "Query fuel C args w = Returned r"
  shows "Query (fuel + extra) C args w = Returned r"
proof -
  let ?s = "\<lparr>round = 0, step = 1,
    fr = PEval_round C (m_graph w) (m_comm_spec w) (Query_init C args w)\<rparr>"
  from assms obtain s where l: "IncEval_loop fuel C (m_graph w) (m_comm_spec w) ?s = Returned s"
    by (auto simp: Query_def Let_def split: outcome.splits)
  from IncEval_loop_fuel [OF l, of extra] l assms show ?thesis
    by (simp add: Query_def Let_def)
qed

lemma toy_calls:
  "Query_calls 5 toy_collaborators 3 toy_worker =
    [Call_MPI_Barrier (), Call_make_shared, Call_set_fragment, Call_Context_Init 3,
     Call_Start, Call_StartARound, Call_PEval, Call_FinishARound,
     Call_ToTerminate False, Call_StartARound, Call_IncEval, Call_FinishARound,
     Call_ToTerminate False, Call_StartARound, Call_IncEval, Call_FinishARound,
     Call_ToTerminate True, Call_MPI_Barrier (), Call_Finalize]"
  by code_simp

lemma toy_returns:
  "\<exists>r. Query 5 toy_collaborators 3 toy_worker = Returned r"
  by (simp add: Query_def Query_init_def PEval_round_def IncEval_round_def
      Query_finish_def toy_collaborators_def toy_worker_def VLOG_def emit_def Let_def
      eval_nat_numeral)

subsection \<open>Lists of calls\<close>

lemma bracketed_append:
  assumes a: "bracketed a" and b: "bracketed b"
  shows "bracketed (a @ b)"
  unfolding bracketed_def
proof (intro allI impI)
  fix i
  assume i: "i < length (a @ b)"
    and e: "(a @ b) ! i = Call_PEval \<or> (a @ b) ! i = Call_IncEval"
  show "0 < i \<and> (a @ b) ! (i - 1) = Call_StartARound \<and> Suc i < length (a @ b) \<and>
      (a @ b) ! Suc i = Call_FinishARound"
  proof (cases "i < length a")
    case True
    with e have "a ! i = Call_PEval \<or> a ! i = Call_IncEval"
      by (simp add: nth_append)
    with a True have "0 < i \<and> a ! (i - 1) = Call_StartARound \<and> Suc i < length a \<and>
        a ! Suc i = Call_FinishARound"
      unfolding bracketed_def by blast
    then show ?thesis
      by (auto simp: nth_append)
  next
    case False
    define j where "j = i - length a"
    from False i have j: "j < length b" and ij: "i = length a + j"
      by (simp_all add: j_def)
    from e have "b ! j = Call_PEval \<or> b ! j = Call_IncEval"
      by (simp add: ij)
    with b j have "0 < j \<and> b ! (j - 1) = Call_StartARound \<and> Suc j < length b \<and>
        b ! Suc j = Call_FinishARound"
      unfolding bracketed_def by blast
    then show ?thesis
      by (auto simp: ij nth_append)
  qed
qed

lemma bracketed_free:
  "Call_PEval \<notin> set t \<Longrightarrow> Call_IncEval \<notin> set t \<Longrightarrow> bracketed t"
  unfolding bracketed_def by (metis nth_mem)

lemma bracketed_round:
  "e = Call_PEval \<or> e = Call_IncEval \<Longrightarrow> bracketed [Call_StartARound, e, Call_FinishARound]"
  by (auto simp: bracketed_def nth_Cons' less_Suc_eq)

lemma bracketed_rounds: "bracketed (IncEval_rounds k)"
proof (induction k)
  case 0
  show ?case by (simp add: bracketed_def)
next
  case (Suc k)
  have "bracketed ([Call_ToTerminate False] @ [Call_StartARound, Call_IncEval, Call_FinishARound])"
    by (intro bracketed_append bracketed_round bracketed_free) simp_all
  then have "bracketed [Call_ToTerminate False, Call_StartARound, Call_IncEval, Call_FinishARound]"
    by simp
  then show ?case
    unfolding IncEval_rounds_Suc using Suc by (rule bracketed_append)
qed

lemma round_shaped_append:
  assumes a: "round_shaped a" and b: "round_shaped b"
  shows "round_shaped (a @ b)"
  unfolding round_shaped_def
proof (intro allI impI conjI)
  fix i
  assume i: "i < length (a @ b)" and e: "(a @ b) ! i = Call_IncEval"
  show "2 \<le> i" and "(a @ b) ! (i - 2) = Call_ToTerminate False"
  proof -
    have "2 \<le> i \<and> (a @ b) ! (i - 2) = Call_ToTerminate False"
    proof (cases "i < length a")
      case True
      with e have "a ! i = Call_IncEval"
        by (simp add: nth_append)
      with a True have "2 \<le> i \<and> a ! (i - 2) = Call_ToTerminate False"
        unfolding round_shaped_def by blast
      with True show ?thesis
        by (auto simp: nth_append)
    next
      case False
      define j where "j = i - length a"
      from False i have j: "j < length b" and ij: "i = length a + j"
        by (simp_all add: j_def)
      from e have "b ! j = Call_IncEval"
        by (simp add: ij)
      with b j have "2 \<le> j \<and> b ! (j - 2) = Call_ToTerminate False"
        unfolding round_shaped_def by blast
      then show ?thesis
        by (auto simp: ij nth_append)
    qed
    then show "2 \<le> i" and "(a @ b) ! (i - 2) = Call_ToTerminate False"
      by simp_all
  qed
next
  fix i
  assume i: "i < length (a @ b)" and e: "(a @ b) ! i = Call_ToTerminate False"
  have r: "i + 3 < length (a @ b) \<and> (a @ b) ! (i + 1) = Call_StartARound \<and>
      (a @ b) ! (i + 2) = Call_IncEval \<and> (a @ b) ! (i + 3) = Call_FinishARound"
  proof (cases "i < length a")
    case True
    with e have "a ! i = Call_ToTerminate False"
      by (simp add: nth_append)
    with a True have "i + 3 < length a \<and> a ! (i + 1) = Call_StartARound \<and>
        a ! (i + 2) = Call_IncEval \<and> a ! (i + 3) = Call_FinishARound"
      unfolding round_shaped_def by blast
    then show ?thesis
      by (auto simp: nth_append)
  next
    case False
    define j where "j = i - length a"
    from False i have j: "j < length b" and ij: "i = length a + j"
      by (simp_all add: j_def)
    from e have "b ! j = Call_ToTerminate False"
      by (simp add: ij)
    with b j have "j + 3 < length b \<and> b ! (j + 1) = Call_StartARound \<and>
        b ! (j + 2) = Call_IncEval \<and> b ! (j + 3) = Call_FinishARound"
      unfolding round_shaped_def by blast
    then show ?thesis
      by (auto simp: ij nth_append add.assoc)
  qed
  from r show "i + 3 < length (a @ b)" by simp
  from r show "(a @ b) ! (i + 1) = Call_StartARound" by simp
  from r show "(a @ b) ! (i + 2) = Call_IncEval" by simp
  from r show "(a @ b) ! (i + 3) = Call_FinishARound" by simp
qed

lemma round_shaped_free:
  "Call_IncEval \<notin> set t \<Longrightarrow> Call_ToTerminate False \<notin> set t \<Longrightarrow> round_shaped t"
  unfolding round_shaped_def by (metis nth_mem)

lemma round_shaped_round:
  "round_shaped [Call_ToTerminate False, Call_StartARound, Call_IncEval, Call_FinishARound]"
  by (auto simp: round_shaped_def nth_Cons' less_Suc_eq)

lemma round_shaped_rounds: "round_shaped (IncEval_rounds k)"
proof (induction k)
  case 0
  show ?case by (simp add: round_shaped_def)
next
  case (Suc k)
  from round_shaped_round Suc show ?case
    unfolding IncEval_rounds_Suc by (rule round_shaped_append)
qed

lemma consulted_append:
  assumes a: "consulted a" and b: "consulted b"
    and h: "b = [] \<or> (\<exists>x. b ! 0 = Call_ToTerminate x)"
  shows "consulted (a @ b)"
  unfolding consulted_def
proof (intro allI impI)
  fix i
  assume "Suc i < length (a @ b) \<and> (a @ b) ! i = Call_FinishARound"
  then have i: "Suc i < length (a @ b)" and e: "(a @ b) ! i = Call_FinishARound"
    by simp_all
  consider "Suc i < length a" | "Suc i = length a" | "length a \<le> i"
    by linarith
  then show "\<exists>x. (a @ b) ! Suc i = Call_ToTerminate x"
  proof cases
    case 1
    with e have "a ! i = Call_FinishARound"
      by (simp add: nth_append)
    with a 1 have "\<exists>x. a ! Suc i = Call_ToTerminate x"
      unfolding consulted_def by blast
    with 1 show ?thesis
      by (simp add: nth_append)
  next
    case 2
    with i have "b \<noteq> []"
      by auto
    with h obtain x where "b ! 0 = Call_ToTerminate x"
      by blast
    with 2 show ?thesis
      by (simp add: nth_append)
  next
    case 3
    define j where "j = i - length a"
    from 3 i have j: "Suc j < length b" and ij: "i = length a + j"
      by (simp_all add: j_def)
    from e have "b ! j = Call_FinishARound"
      by (simp add: ij)
    with b j have "\<exists>x. b ! Suc j = Call_ToTerminate x"
      unfolding consulted_def by blast
    then show ?thesis
      by (simp add: ij nth_append)
  qed
qed

lemma consulted_free: "Call_FinishARound \<notin> set t \<Longrightarrow> consulted t"
  unfolding consulted_def by (metis Suc_lessD nth_mem)

lemma consulted_last: "Call_FinishARound \<notin> set t \<Longrightarrow> consulted (t @ [Call_FinishARound])"
proof -
  assume t: "Call_FinishARound \<notin> set t"
  show ?thesis
    unfolding consulted_def
  proof (intro allI impI)
    fix i
    assume "Suc i < length (t @ [Call_FinishARound]) \<and> (t @ [Call_FinishARound]) ! i = Call_FinishARound"
    then have "i < length t" and "t ! i = Call_FinishARound"
      by (auto simp: nth_append)
    with t have False
      by (metis nth_mem)
    then show "\<exists>b. (t @ [Call_FinishARound]) ! Suc i = Call_ToTerminate b" ..
  qed
qed

lemma IncEval_rounds_head:
  "IncEval_rounds k = [] \<or> (\<exists>x. IncEval_rounds k ! 0 = Call_ToTerminate x)"
  by (cases k) (auto simp: IncEval_rounds_Suc)

lemma consulted_round:
  "consulted [Call_ToTerminate False, Call_StartARound, Call_IncEval, Call_FinishARound]"
  using consulted_last [of "[Call_ToTerminate False, Call_StartARound, Call_IncEval]"]
  by simp

lemma consulted_rounds: "consulted (IncEval_rounds k)"
proof (induction k)
  case 0
  show ?case by (simp add: consulted_def)
next
  case (Suc k)
  from consulted_round Suc IncEval_rounds_head show ?case
    unfolding IncEval_rounds_Suc by (rule consulted_append)
qed

lemma set_IncEval_rounds:
  "set (IncEval_rounds k) \<subseteq>
     {Call_ToTerminate False, Call_StartARound, Call_IncEval, Call_FinishARound}"
  by (induction k) (simp_all add: IncEval_rounds_Suc)

lemma count_IncEval_rounds:
  "count_list (IncEval_rounds k) Call_IncEval = k"
  "count_list (IncEval_rounds k) Call_PEval = 0"
  "count_list (IncEval_rounds k) (Call_ToTerminate False) = k"
  "count_list (IncEval_rounds k) (Call_MPI_Barrier c) = 0"
  by (induction k) (simp_all add: IncEval_rounds_Suc)

lemma nth_before:
  assumes "y \<notin> set a" and "x \<notin> set b"
    and "i < length (a @ b)" and "j < length (a @ b)"
    and "(a @ b) ! i = x" and "(a @ b) ! j = y"
  shows "i < j"
proof -
  have "i < length a"
  proof (rule ccontr)
    assume "\<not> i < length a"
    with assms(3,5) have "b ! (i - length a) = x" and "i - length a < length b"
      by (simp_all add: nth_append)
    with assms(2) show False
      by (metis nth_mem)
  qed
  moreover have "\<not> j < length a"
  proof
    assume "j < length a"
    with assms(6) have "a ! j = y"
      by (simp add: nth_append)
    with \<open>j < length a\<close> assms(1) show False
      by (metis nth_mem)
  qed
  ultimately show ?thesis by simp
qed

lemma nth_not_after:
  assumes "x \<notin> set a" and "y \<notin> set b"
    and "i < length (a @ b)" and "(a @ b) ! i = x"
  shows "y \<notin> set (drop i (a @ b))"
proof -
  have "\<not> i < length a"
  proof
    assume "i < length a"
    with assms(4) have "a ! i = x"
      by (simp add: nth_append)
    with \<open>i < length a\<close> assms(1) show False
      by (metis nth_mem)
  qed
  then have "drop i (a @ b) = drop (i - length a) b"
    by simp
  with assms(2) show ?thesis
    by (metis in_set_dropD)
qed

text \<open>Facts about a list of the shape that the calls of a run have.\<close>

lemma prologue_sets:
  "Call_IncEval \<notin> set (Query_prologue c args)"
  "Call_ToTerminate b \<notin> set (Query_prologue c args)"
  "Call_Finalize \<notin> set (Query_prologue c args)"
  by (simp_all add: Query_prologue_def)

lemma rounds_sets:
  "Call_PEval \<notin> set (IncEval_rounds k)"
  "Call_ToTerminate True \<notin> set (IncEval_rounds k)"
  "Call_Finalize \<notin> set (IncEval_rounds k)"
  "Call_MPI_Barrier c \<notin> set (IncEval_rounds k)"
  using set_IncEval_rounds [of k] by auto

lemma epilogue_sets:
  "Call_PEval \<notin> set (Query_epilogue c)"
  "Call_IncEval \<notin> set (Query_epilogue c)"
  "Call_ToTerminate False \<notin> set (Query_epilogue c)"
  "Call_FinishARound \<notin> set (Query_epilogue c)"
  by (simp_all add: Query_epilogue_def)

lemma shape_count_PEval:
  assumes "E = [] \<or> E = Query_epilogue c"
  shows "count_list (Query_prologue c args @ IncEval_rounds k @ E) Call_PEval = 1"
  using assms by (auto simp: count_IncEval_rounds Query_prologue_def Query_epilogue_def)

lemma shape_count_IncEval:
  assumes "E = [] \<or> E = Query_epilogue c"
  shows "count_list (Query_prologue c args @ IncEval_rounds k @ E) Call_IncEval = k"
  using assms by (auto simp: count_IncEval_rounds Query_prologue_def Query_epilogue_def)

lemma shape_bracketed:
  assumes "E = [] \<or> E = Query_epilogue c"
  shows "bracketed (Query_prologue c args @ IncEval_rounds k @ E)"
proof (intro bracketed_append bracketed_rounds)
  have "bracketed ([Call_MPI_Barrier c, Call_make_shared, Call_set_fragment,
      Call_Context_Init args, Call_Start] @ [Call_StartARound, Call_PEval, Call_FinishARound])"
    by (intro bracketed_append bracketed_round bracketed_free) simp_all
  then show "bracketed (Query_prologue c args)"
    by (simp add: Query_prologue_def)
  from assms show "bracketed E"
    by (auto intro: bracketed_free simp: epilogue_sets)
qed

lemma shape_round_shaped:
  assumes "E = [] \<or> E = Query_epilogue c"
  shows "round_shaped (Query_prologue c args @ IncEval_rounds k @ E)"
proof (intro round_shaped_append round_shaped_rounds)
  show "round_shaped (Query_prologue c args)"
    by (intro round_shaped_free prologue_sets)
  from assms show "round_shaped E"
    by (auto intro: round_shaped_free simp: epilogue_sets)
qed

lemma shape_consulted:
  assumes "E = [] \<or> E = Query_epilogue c"
  shows "consulted (Query_prologue c args @ IncEval_rounds k @ E)"
proof (rule consulted_append)
  have "consulted ([Call_MPI_Barrier c, Call_make_shared, Call_set_fragment,
      Call_Context_Init args, Call_Start, Call_StartARound, Call_PEval] @ [Call_FinishARound])"
    by (rule consulted_last) simp
  then show "consulted (Query_prologue c args)"
    by (simp add: Query_prologue_def)
  have E: "consulted E"
    using assms by (auto intro: consulted_free simp: epilogue_sets)
  have "Query_epilogue c ! 0 = Call_ToTerminate True"
    by (simp add: Query_epilogue_def)
  with assms have hE: "E = [] \<or> (\<exists>x. E ! 0 = Call_ToTerminate x)"
    by blast
  from consulted_rounds E hE show "consulted (IncEval_rounds k @ E)"
    by (rule consulted_append)
  from IncEval_rounds_head [of k] hE
  show "IncEval_rounds k @ E = [] \<or> (\<exists>x. (IncEval_rounds k @ E) ! 0 = Call_ToTerminate x)"
    by (auto simp: nth_append)
qed

lemma shape_PEval_first:
  assumes "E = [] \<or> E = Query_epilogue c"
    and "i < length (Query_prologue c args @ IncEval_rounds k @ E)"
    and "j < length (Query_prologue c args @ IncEval_rounds k @ E)"
    and "(Query_prologue c args @ IncEval_rounds k @ E) ! i = Call_PEval"
    and "(Query_prologue c args @ IncEval_rounds k @ E) ! j = Call_IncEval"
  shows "i < j"
proof (rule nth_before [OF _ _ assms(2,3,4,5)])
  show "Call_IncEval \<notin> set (Query_prologue c args)"
    by (rule prologue_sets)
  from assms(1) show "Call_PEval \<notin> set (IncEval_rounds k @ E)"
    by (auto simp: rounds_sets epilogue_sets)
qed

lemma shape_terminated:
  assumes "E = [] \<or> E = Query_epilogue c"
    and "i < length (Query_prologue c args @ IncEval_rounds k @ E)"
    and "(Query_prologue c args @ IncEval_rounds k @ E) ! i = Call_ToTerminate True"
  shows "Call_IncEval \<notin> set (drop i (Query_prologue c args @ IncEval_rounds k @ E))"
proof -
  have "Call_IncEval \<notin> set (drop i ((Query_prologue c args @ IncEval_rounds k) @ E))"
  proof (rule nth_not_after)
    show "Call_ToTerminate True \<notin> set (Query_prologue c args @ IncEval_rounds k)"
      by (simp add: prologue_sets rounds_sets)
    from assms(1) show "Call_IncEval \<notin> set E"
      by (auto simp: epilogue_sets)
    from assms(2) show "i < length ((Query_prologue c args @ IncEval_rounds k) @ E)"
      by simp
    from assms(3) show "((Query_prologue c args @ IncEval_rounds k) @ E) ! i = Call_ToTerminate True"
      by simp
  qed
  then show ?thesis by simp
qed

lemma shape_not_last:
  assumes "Call_FinishARound \<notin> set E" and "E \<noteq> []"
    and "i < length (a @ E)" and "(a @ E) ! i = Call_FinishARound"
  shows "Suc i < length (a @ E)"
proof -
  have "i < length a"
  proof (rule ccontr)
    assume "\<not> i < length a"
    with assms(3,4) have "E ! (i - length a) = Call_FinishARound" and "i - length a < length E"
      by (simp_all add: nth_append)
    with assms(1) show False
      by (metis nth_mem)
  qed
  with assms(2) show ?thesis
    by (cases E) simp_all
qed

subsection \<open>The order of the supersteps\<close>

text \<open>
  C1. In the calls of a run of \<^verbatim>\<open>Query\<close>, up to any loop head or to the return:
  \<^verbatim>\<open>PEval\<close> is called exactly once, and before every call of \<^verbatim>\<open>IncEval\<close>; every call of
  \<^verbatim>\<open>PEval\<close> or \<^verbatim>\<open>IncEval\<close> has \<^verbatim>\<open>StartARound\<close> as the call just before it and \<^verbatim>\<open>FinishARound\<close>
  as the call just after it; the call after a \<^verbatim>\<open>FinishARound\<close> is \<^verbatim>\<open>ToTerminate\<close>; when
  \<^verbatim>\<open>ToTerminate\<close> returns false the next three calls are \<^verbatim>\<open>StartARound\<close>, \<^verbatim>\<open>IncEval\<close>,
  \<^verbatim>\<open>FinishARound\<close>; when it returns true no \<^verbatim>\<open>IncEval\<close> follows; every \<^verbatim>\<open>IncEval\<close> is the
  second call after a \<^verbatim>\<open>ToTerminate\<close> that returned false; and in a run that has returned
  no \<^verbatim>\<open>FinishARound\<close> is the last call, so \<^verbatim>\<open>ToTerminate\<close> was asked after each.
\<close>

theorem C1_superstep_order:
  "let t = Query_calls fuel C args w in
     count_list t Call_PEval = 1 \<and>
     (\<forall>i<length t. \<forall>j<length t. t ! i = Call_PEval \<and> t ! j = Call_IncEval \<longrightarrow> i < j) \<and>
     (\<forall>i<length t. t ! i = Call_PEval \<or> t ! i = Call_IncEval \<longrightarrow>
        0 < i \<and> t ! (i - 1) = Call_StartARound \<and>
        Suc i < length t \<and> t ! Suc i = Call_FinishARound) \<and>
     (\<forall>i. Suc i < length t \<and> t ! i = Call_FinishARound \<longrightarrow>
        (\<exists>b. t ! Suc i = Call_ToTerminate b)) \<and>
     (\<forall>i<length t. t ! i = Call_ToTerminate False \<longrightarrow>
        i + 3 < length t \<and> t ! (i + 1) = Call_StartARound \<and>
        t ! (i + 2) = Call_IncEval \<and> t ! (i + 3) = Call_FinishARound) \<and>
     (\<forall>i<length t. t ! i = Call_ToTerminate True \<longrightarrow> Call_IncEval \<notin> set (drop i t)) \<and>
     (\<forall>i<length t. t ! i = Call_IncEval \<longrightarrow> 2 \<le> i \<and> t ! (i - 2) = Call_ToTerminate False) \<and>
     (\<forall>r. Query fuel C args w = Returned r \<longrightarrow>
        (\<forall>i<length t. t ! i = Call_FinishARound \<longrightarrow> Suc i < length t))"
proof -
  define c where "c = comm (m_comm_spec w)"
  from Query_calls_shape [of fuel C args w] Query_ending_cases obtain k E where
    t: "Query_calls fuel C args w = Query_prologue c args @ IncEval_rounds k @ E"
    and E: "E = [] \<or> E = Query_epilogue c"
    and R: "E = Query_ending (Query fuel C args w) c"
    unfolding c_def by metis
  have f: "Suc i < length (Query_prologue c args @ IncEval_rounds k @ E)"
    if "Query fuel C args w = Returned r"
      and "i < length (Query_prologue c args @ IncEval_rounds k @ E)"
      and "(Query_prologue c args @ IncEval_rounds k @ E) ! i = Call_FinishARound" for r i
  proof -
    from that(1) R have "E = Query_epilogue c"
      by (simp add: Query_ending_def)
    then have "Call_FinishARound \<notin> set E" and "E \<noteq> []"
      by (simp_all add: Query_epilogue_def)
    from shape_not_last [OF this, of i "Query_prologue c args @ IncEval_rounds k"] that(2,3)
    show ?thesis by simp
  qed
  note b = shape_bracketed [OF E, of args k, unfolded bracketed_def]
  note r = shape_round_shaped [OF E, of args k, unfolded round_shaped_def]
  note n = shape_consulted [OF E, of args k, unfolded consulted_def]
  show ?thesis
    unfolding Let_def t
  proof (intro conjI allI impI)
    show "count_list (Query_prologue c args @ IncEval_rounds k @ E) Call_PEval = 1"
      by (rule shape_count_PEval [OF E])
  qed (use b r n f shape_PEval_first [OF E] shape_terminated [OF E] in blast)+
qed

theorem C1_superstep_order_witness:
  "Query_calls 5 toy_collaborators 3 toy_worker ! 6 = Call_PEval \<and>
   Query_calls 5 toy_collaborators 3 toy_worker ! 5 = Call_StartARound \<and>
   Query_calls 5 toy_collaborators 3 toy_worker ! 7 = Call_FinishARound \<and>
   Query_calls 5 toy_collaborators 3 toy_worker ! 8 = Call_ToTerminate False \<and>
   Query_calls 5 toy_collaborators 3 toy_worker ! 9 = Call_StartARound \<and>
   Query_calls 5 toy_collaborators 3 toy_worker ! 10 = Call_IncEval \<and>
   Query_calls 5 toy_collaborators 3 toy_worker ! 11 = Call_FinishARound \<and>
   Query_calls 5 toy_collaborators 3 toy_worker ! 16 = Call_ToTerminate True \<and>
   Call_IncEval \<notin> set (drop 16 (Query_calls 5 toy_collaborators 3 toy_worker)) \<and>
   count_list (Query_calls 5 toy_collaborators 3 toy_worker) Call_PEval = 1"
  using C1_superstep_order [of 5 toy_collaborators 3 toy_worker]
  unfolding Let_def toy_calls by simp

text \<open>
  C2. The first call of a run is the barrier, followed by the construction of the context,
  \<^verbatim>\<open>set_fragment\<close> and the context's \<^verbatim>\<open>Init\<close>. When \<^verbatim>\<open>Query\<close> returns, its calls end with the
  one \<^verbatim>\<open>ToTerminate\<close> that returned true, a barrier and \<^verbatim>\<open>Finalize\<close>, in this order; there
  is no other \<^verbatim>\<open>Finalize\<close>, and the barriers are these two, both on the worker's communicator.
\<close>

theorem C2_barriers:
  "(\<exists>rest. Query_calls fuel C args w =
      Call_MPI_Barrier (comm (m_comm_spec w)) # Call_make_shared # Call_set_fragment #
      Call_Context_Init args # rest) \<and>
   (\<forall>r. Query fuel C args w = Returned r \<longrightarrow>
      (\<exists>body. Query_calls fuel C args w =
          body @ [Call_ToTerminate True, Call_MPI_Barrier (comm (m_comm_spec w)), Call_Finalize] \<and>
        Call_ToTerminate True \<notin> set body \<and> Call_Finalize \<notin> set body) \<and>
      count_list (Query_calls fuel C args w) (Call_MPI_Barrier (comm (m_comm_spec w))) = 2 \<and>
      (\<forall>c. Call_MPI_Barrier c \<in> set (Query_calls fuel C args w) \<longrightarrow> c = comm (m_comm_spec w)))"
proof (intro conjI allI impI)
  from Query_calls_shape [of fuel C args w]
  show "\<exists>rest. Query_calls fuel C args w =
      Call_MPI_Barrier (comm (m_comm_spec w)) # Call_make_shared # Call_set_fragment #
      Call_Context_Init args # rest"
    by (auto simp: Query_prologue_def)
next
  fix r
  assume r: "Query fuel C args w = Returned r"
  from Query_Returned [OF r] r obtain k where
    t: "Query_calls fuel C args w = Query_prologue (comm (m_comm_spec w)) args @
      IncEval_rounds k @ Query_epilogue (comm (m_comm_spec w))"
    by (auto simp: Query_calls_def)
  have "Query_calls fuel C args w =
      (Query_prologue (comm (m_comm_spec w)) args @ IncEval_rounds k) @
      [Call_ToTerminate True, Call_MPI_Barrier (comm (m_comm_spec w)), Call_Finalize] \<and>
    Call_ToTerminate True \<notin> set (Query_prologue (comm (m_comm_spec w)) args @ IncEval_rounds k) \<and>
    Call_Finalize \<notin> set (Query_prologue (comm (m_comm_spec w)) args @ IncEval_rounds k)"
    by (simp add: t Query_epilogue_def prologue_sets rounds_sets)
  then show "\<exists>body. Query_calls fuel C args w =
        body @ [Call_ToTerminate True, Call_MPI_Barrier (comm (m_comm_spec w)), Call_Finalize] \<and>
      Call_ToTerminate True \<notin> set body \<and> Call_Finalize \<notin> set body"
    by blast
  show "count_list (Query_calls fuel C args w) (Call_MPI_Barrier (comm (m_comm_spec w))) = 2"
    by (simp add: t count_IncEval_rounds Query_prologue_def Query_epilogue_def)
  fix c
  assume "Call_MPI_Barrier c \<in> set (Query_calls fuel C args w)"
  then show "c = comm (m_comm_spec w)"
    using rounds_sets(4) [of c k]
    by (auto simp: t Query_prologue_def Query_epilogue_def)
qed

theorem C2_barriers_witness:
  "(\<exists>body. Query_calls 5 toy_collaborators 3 toy_worker =
      body @ [Call_ToTerminate True, Call_MPI_Barrier (), Call_Finalize] \<and>
      Call_ToTerminate True \<notin> set body \<and> Call_Finalize \<notin> set body) \<and>
   count_list (Query_calls 5 toy_collaborators 3 toy_worker) (Call_MPI_Barrier ()) = 2 \<and>
   hd (Query_calls 5 toy_collaborators 3 toy_worker) = Call_MPI_Barrier ()"
proof -
  from toy_returns obtain r where r: "Query 5 toy_collaborators 3 toy_worker = Returned r" ..
  have c: "comm (m_comm_spec toy_worker) = ()"
    by simp
  from C2_barriers [of 5 toy_collaborators 3 toy_worker] r show ?thesis
    unfolding c by auto
qed

subsection \<open>The context of a query\<close>

lemma Query_init_old_context:
  "Query_init C args (w\<lparr>m_context := old\<rparr>) = Query_init C args w"
  by (simp add: Query_init_def)

lemma write_back_old_context:
  "write_back (w\<lparr>m_context := old\<rparr>) f = write_back w f"
  by (simp add: write_back_def)

lemma Query_old_context:
  "Query fuel C args (w\<lparr>m_context := old\<rparr>) = Query fuel C args w"
  by (simp add: Query_def Query_init_old_context write_back_old_context Let_def
      split: outcome.split)

lemma Query_init_ctx:
  "the_context (Query_init C args w) =
     fst (Context_Init C args (set_fragment C (m_graph w) (new_context C)) (m_messages w))"
  by (simp add: Query_init_def Let_def split: prod.split)

lemma PEval_round_ctx:
  "the_context (PEval_round C graph cs f) =
     fst (snd (PEval C (the_app f) graph (the_context f) (StartARound C (Start C (the_messages f)))))"
  by (simp add: PEval_round_def Let_def emit_def split: prod.split)

lemma Query_context:
  "m_context (fst (state_of (Query fuel C args w))) =
     Some (the_context (fr (snd (state_of (Query fuel C args w)))))"
  by (simp add: Query_def Let_def write_back_def split: outcome.split)

lemma Query_0:
  "Query 0 C args w =
     OutOfFuel (write_back w (PEval_round C (m_graph w) (m_comm_spec w) (Query_init C args w)),
       \<lparr>round = 0, step = 1,
        fr = PEval_round C (m_graph w) (m_comm_spec w) (Query_init C args w)\<rparr>)"
  by (simp add: Query_def Let_def)

lemma Query_from_first_head:
  "Query fuel C args w =
     (case IncEval_loop fuel C (m_graph w) (m_comm_spec w) (snd (state_of (Query 0 C args w))) of
        Returned s \<Rightarrow>
          Returned (write_back w (Query_finish C (m_comm_spec w) (fr s)),
                    s\<lparr>fr := Query_finish C (m_comm_spec w) (fr s)\<rparr>)
      | OutOfFuel s \<Rightarrow> OutOfFuel (write_back w (fr s), s))"
  by (simp add: Query_0) (simp add: Query_def Let_def split: outcome.split)

lemma Query_init_state:
  "the_app (Query_init C args w) = m_app w"
  "the_context (Query_init C args w) =
     fst (Context_Init C args (set_fragment C (m_graph w) (new_context C)) (m_messages w))"
  "the_messages (Query_init C args w) =
     snd (Context_Init C args (set_fragment C (m_graph w) (new_context C)) (m_messages w))"
  by (simp_all add: Query_init_def Let_def split: prod.split)

lemma PEval_round_state:
  "the_app (PEval_round C graph cs f) =
     fst (PEval C (the_app f) graph (the_context f) (StartARound C (Start C (the_messages f))))"
  "the_context (PEval_round C graph cs f) =
     fst (snd (PEval C (the_app f) graph (the_context f) (StartARound C (Start C (the_messages f)))))"
  "the_messages (PEval_round C graph cs f) =
     FinishARound C
       (snd (snd (PEval C (the_app f) graph (the_context f) (StartARound C (Start C (the_messages f))))))"
  by (simp_all add: PEval_round_def Let_def emit_def split: prod.split)

lemma Query_first_head:
  "the_app (fr (snd (state_of (Query 0 C args w)))) =
     fst (PEval C (m_app w) (m_graph w)
       (fst (Context_Init C args (set_fragment C (m_graph w) (new_context C)) (m_messages w)))
       (StartARound C (Start C
         (snd (Context_Init C args (set_fragment C (m_graph w) (new_context C)) (m_messages w))))))"
  "the_context (fr (snd (state_of (Query 0 C args w)))) =
     fst (snd (PEval C (m_app w) (m_graph w)
       (fst (Context_Init C args (set_fragment C (m_graph w) (new_context C)) (m_messages w)))
       (StartARound C (Start C
         (snd (Context_Init C args (set_fragment C (m_graph w) (new_context C)) (m_messages w)))))))"
  "the_messages (fr (snd (state_of (Query 0 C args w)))) =
     FinishARound C (snd (snd (PEval C (m_app w) (m_graph w)
       (fst (Context_Init C args (set_fragment C (m_graph w) (new_context C)) (m_messages w)))
       (StartARound C (Start C
         (snd (Context_Init C args (set_fragment C (m_graph w) (new_context C)) (m_messages w))))))))"
  by (simp_all add: Query_0 PEval_round_state Query_init_state)

text \<open>
  C8. The calls of a run start with the barrier, the construction of the context,
  \<^verbatim>\<open>set_fragment\<close>, the context's \<^verbatim>\<open>Init\<close> with the query's arguments, \<^verbatim>\<open>Start\<close>,
  \<^verbatim>\<open>StartARound\<close> and only then \<^verbatim>\<open>PEval\<close>. At the first loop head of \<^verbatim>\<open>Query\<close> the
  application, the context and the manager are what \<^verbatim>\<open>PEval\<close> (and \<^verbatim>\<open>FinishARound\<close> after it)
  leaves when it is called with the worker's application and fragment, the context that
  \<^verbatim>\<open>Init\<close> leaves, and the manager that \<^verbatim>\<open>Init\<close>, \<^verbatim>\<open>Start\<close> and \<^verbatim>\<open>StartARound\<close> leave; \<^verbatim>\<open>Init\<close> is
  called with the query's arguments on a default-constructed context after \<^verbatim>\<open>set_fragment\<close>
  with the worker's fragment, and with the worker's manager. Every run of \<^verbatim>\<open>Query\<close> is the
  loop continued from that first loop head. The context the worker held before has no
  influence on the run, and afterwards the worker holds the context of the run.
\<close>

theorem C8_fresh_context:
  "let init = Context_Init C args (set_fragment C (m_graph w) (new_context C)) (m_messages w);
       peval = PEval C (m_app w) (m_graph w) (fst init) (StartARound C (Start C (snd init)));
       first_head = snd (state_of (Query 0 C args w))
   in
     (\<exists>rest. Query_calls fuel C args w =
        [Call_MPI_Barrier (comm (m_comm_spec w)), Call_make_shared, Call_set_fragment,
         Call_Context_Init args, Call_Start, Call_StartARound, Call_PEval] @ rest) \<and>
     the_app (fr first_head) = fst peval \<and>
     the_context (fr first_head) = fst (snd peval) \<and>
     the_messages (fr first_head) = FinishARound C (snd (snd peval)) \<and>
     Query fuel C args w =
       (case IncEval_loop fuel C (m_graph w) (m_comm_spec w) first_head of
          Returned s \<Rightarrow>
            Returned (write_back w (Query_finish C (m_comm_spec w) (fr s)),
                      s\<lparr>fr := Query_finish C (m_comm_spec w) (fr s)\<rparr>)
        | OutOfFuel s \<Rightarrow> OutOfFuel (write_back w (fr s), s)) \<and>
     the_context (Query_init C args w) = fst init \<and>
     the_context (PEval_round C (m_graph w) (m_comm_spec w) (Query_init C args w)) =
       fst (snd (PEval C (m_app w) (m_graph w) (the_context (Query_init C args w))
         (StartARound C (Start C (the_messages (Query_init C args w)))))) \<and>
     Query fuel C args (w\<lparr>m_context := old\<rparr>) = Query fuel C args w \<and>
     m_context (fst (state_of (Query fuel C args w))) =
       Some (the_context (fr (snd (state_of (Query fuel C args w)))))"
  unfolding Let_def
proof (intro conjI)
  from Query_calls_shape [of fuel C args w]
  show "\<exists>rest. Query_calls fuel C args w =
      [Call_MPI_Barrier (comm (m_comm_spec w)), Call_make_shared, Call_set_fragment,
       Call_Context_Init args, Call_Start, Call_StartARound, Call_PEval] @ rest"
    by (auto simp: Query_prologue_def)
  show "the_context (PEval_round C (m_graph w) (m_comm_spec w) (Query_init C args w)) =
      fst (snd (PEval C (m_app w) (m_graph w) (the_context (Query_init C args w))
        (StartARound C (Start C (the_messages (Query_init C args w))))))"
    by (simp add: PEval_round_state Query_init_state)
qed (rule Query_first_head Query_from_first_head Query_init_ctx Query_old_context Query_context)+

theorem C8_fresh_context_witness:
  "the_context (fr (snd (state_of (Query 0 marking_collaborators 42 marking_worker)))) = [8, 42, 18] \<and>
   the_messages (fr (snd (state_of (Query 0 marking_collaborators 42 marking_worker)))) =
     [0, 1, 2, 3, 6, 4] \<and>
   m_context (fst (state_of (Query 1 marking_collaborators 42 marking_worker))) = Some [8, 42, 18] \<and>
   Query 1 marking_collaborators 42 (marking_worker\<lparr>m_context := None\<rparr>) =
     Query 1 marking_collaborators 42 marking_worker"
proof -
  have i: "Context_Init marking_collaborators 42
      (set_fragment marking_collaborators (m_graph marking_worker)
        (new_context marking_collaborators)) (m_messages marking_worker) = ([8, 42], [0, 1])"
    by (simp add: marking_collaborators_def marking_worker_def)
  have p: "PEval marking_collaborators (m_app marking_worker) (m_graph marking_worker) [8, 42]
      (StartARound marking_collaborators (Start marking_collaborators [0, 1])) =
      ((), [8, 42, 18], [0, 1, 2, 3, 6])"
    by (simp add: marking_collaborators_def marking_worker_def)
  have f: "FinishARound marking_collaborators [0, 1, 2, 3, 6] = [0, 1, 2, 3, 6, 4]"
    by (simp add: marking_collaborators_def)
  have e: "the_context (fr (snd (state_of (Query 1 marking_collaborators 42 marking_worker)))) =
      [8, 42, 18]"
    by (simp add: Query_def Query_init_def PEval_round_def IncEval_round_def
      Query_finish_def marking_collaborators_def marking_worker_def VLOG_def emit_def Let_def)
  note T = C8_fresh_context [of marking_collaborators 42 marking_worker 1 None, unfolded Let_def i p f e fst_conv snd_conv]
  from T show ?thesis
    by blast
qed

subsection \<open>The round counter\<close>

text \<open>The loop does not read \<^verbatim>\<open>round\<close>: another value of it changes nothing else.\<close>

lemma IncEval_round_round_free:
  "IncEval_round C graph cs (s\<lparr>round := r\<rparr>) =
     (IncEval_round C graph cs s)\<lparr>round := r + 1\<rparr>"
  by (simp add: IncEval_round_def Let_def split: prod.split)

lemma IncEval_loop_round_free:
  "IncEval_loop fuel C graph cs (s\<lparr>round := r\<rparr>) =
     map_outcome (\<lambda>s'. s'\<lparr>round := round s' - round s + r\<rparr>) (IncEval_loop fuel C graph cs s)"
proof (induction fuel arbitrary: s r)
  case 0
  show ?case by simp
next
  case (Suc fuel)
  obtain stop m where tt: "ToTerminate C (the_messages (fr s)) = (stop, m)"
    by (cases "ToTerminate C (the_messages (fr s))")
  define s1 where "s1 = s\<lparr>fr := emit (Call_ToTerminate stop) ((fr s)\<lparr>the_messages := m\<rparr>)\<rparr>"
  show ?case
  proof (cases stop)
    case True
    with tt show ?thesis by simp
  next
    case False
    have "s\<lparr>round := r, fr := emit (Call_ToTerminate stop) ((fr s)\<lparr>the_messages := m\<rparr>)\<rparr> =
        s1\<lparr>round := r\<rparr>"
      by (simp add: s1_def)
    then have "IncEval_loop (Suc fuel) C graph cs (s\<lparr>round := r\<rparr>) =
        IncEval_loop fuel C graph cs (IncEval_round C graph cs (s1\<lparr>round := r\<rparr>))"
      using tt False by simp
    also have "\<dots> = IncEval_loop fuel C graph cs ((IncEval_round C graph cs s1)\<lparr>round := r + 1\<rparr>)"
      by (simp only: IncEval_round_round_free)
    also have "\<dots> = map_outcome
        (\<lambda>s'. s'\<lparr>round := round s' - round (IncEval_round C graph cs s1) + (r + 1)\<rparr>)
        (IncEval_loop fuel C graph cs (IncEval_round C graph cs s1))"
      by (rule Suc.IH)
    also have "(\<lambda>s'. s'\<lparr>round := round s' - round (IncEval_round C graph cs s1) + (r + 1)\<rparr>) =
        (\<lambda>s'. s'\<lparr>round := round s' - round s + r\<rparr>)"
      by (simp add: IncEval_round_round s1_def algebra_simps)
    also have "IncEval_loop fuel C graph cs (IncEval_round C graph cs s1) =
        IncEval_loop (Suc fuel) C graph cs s"
      using tt False by (simp add: s1_def)
    finally show ?thesis .
  qed
qed

lemma Query_round:
  "round (snd (state_of (Query fuel C args w))) =
     of_nat (count_list (Query_calls fuel C args w) Call_IncEval)"
proof -
  from Query_calls_shape [of fuel C args w] Query_ending_cases obtain k E where
    t: "Query_calls fuel C args w =
      Query_prologue (comm (m_comm_spec w)) args @ IncEval_rounds k @ E"
    and E: "E = [] \<or> E = Query_epilogue (comm (m_comm_spec w))"
    and r: "round (snd (state_of (Query fuel C args w))) = of_nat k"
    by metis
  from shape_count_IncEval [OF E, of args k] t r show ?thesis
    by simp
qed

lemma Query_step:
  "step (snd (state_of (Query fuel C args w))) = round (snd (state_of (Query fuel C args w))) + 1"
  using Query_calls_shape [of fuel C args w] by auto

lemma IncEval_loop_1:
  "IncEval_loop (Suc 0) C graph cs s =
     (if fst (ToTerminate C (the_messages (fr s)))
      then Returned (s\<lparr>fr := emit (Call_ToTerminate True)
             ((fr s)\<lparr>the_messages := snd (ToTerminate C (the_messages (fr s)))\<rparr>)\<rparr>)
      else OutOfFuel (IncEval_round C graph cs
             (s\<lparr>fr := emit (Call_ToTerminate False)
                ((fr s)\<lparr>the_messages := snd (ToTerminate C (the_messages (fr s)))\<rparr>)\<rparr>)))"
  by (cases "ToTerminate C (the_messages (fr s))") simp

lemma IncEval_loop_exit:
  "(\<exists>s'. IncEval_loop (Suc 0) C graph cs s = Returned s') \<longleftrightarrow>
     fst (ToTerminate C (the_messages (fr s)))"
  by (cases "ToTerminate C (the_messages (fr s))") (auto simp: Let_def split: if_splits)

lemma Query_Returned_iff:
  "(\<exists>q. Query fuel C args w = Returned q) \<longleftrightarrow>
   (\<exists>s'. IncEval_loop fuel C (m_graph w) (m_comm_spec w)
      \<lparr>round = 0, step = 1,
       fr = PEval_round C (m_graph w) (m_comm_spec w) (Query_init C args w)\<rparr> = Returned s')"
  by (auto simp: Query_def Let_def split: outcome.splits)

lemma Query_exit:
  assumes "Query fuel C args w = OutOfFuel (w', s)"
  shows "(\<exists>q. Query (Suc fuel) C args w = Returned q) \<longleftrightarrow>
     fst (ToTerminate C (the_messages (fr s)))"
proof -
  let ?s0 = "\<lparr>round = 0, step = 1,
    fr = PEval_round C (m_graph w) (m_comm_spec w) (Query_init C args w)\<rparr>"
  from assms have l: "IncEval_loop fuel C (m_graph w) (m_comm_spec w) ?s0 = OutOfFuel s"
    by (auto simp: Query_def Let_def split: outcome.splits)
  have "IncEval_loop (fuel + Suc 0) C (m_graph w) (m_comm_spec w) ?s0 =
      IncEval_loop (Suc 0) C (m_graph w) (m_comm_spec w) s"
    by (simp only: IncEval_loop_add l outcome.case)
  then have "IncEval_loop (Suc fuel) C (m_graph w) (m_comm_spec w) ?s0 =
      IncEval_loop (Suc 0) C (m_graph w) (m_comm_spec w) s"
    by (simp only: add_Suc_right add_0_right)
  then show ?thesis
    by (simp only: Query_Returned_iff IncEval_loop_exit)
qed

lemma IncEval_round_counters_free:
  "visible (IncEval_round C graph cs (s\<lparr>round := r, step := st\<rparr>)) =
     visible (IncEval_round C graph cs s)"
  by (simp add: IncEval_round_def visible_def Let_def VLOG_def emit_def split: prod.split)

lemma IncEval_loop_visible:
  "visible s1 = visible s2 \<Longrightarrow>
   map_outcome visible (IncEval_loop fuel C graph cs s1) =
     map_outcome visible (IncEval_loop fuel C graph cs s2)"
proof (induction fuel arbitrary: s1 s2)
  case 0
  then show ?case by simp
next
  case (Suc fuel)
  from Suc.prems have m: "the_messages (fr s1) = the_messages (fr s2)"
    by (simp add: visible_def)
  obtain stop m where tt: "ToTerminate C (the_messages (fr s2)) = (stop, m)"
    by (cases "ToTerminate C (the_messages (fr s2))")
  let ?t1 = "s1\<lparr>fr := emit (Call_ToTerminate stop) ((fr s1)\<lparr>the_messages := m\<rparr>)\<rparr>"
  let ?t2 = "s2\<lparr>fr := emit (Call_ToTerminate stop) ((fr s2)\<lparr>the_messages := m\<rparr>)\<rparr>"
  from Suc.prems have v: "visible ?t1 = visible ?t2"
    by (simp add: visible_def)
  show ?case
  proof (cases stop)
    case True
    with tt m v show ?thesis by simp
  next
    case False
    from v have "visible (IncEval_round C graph cs ?t1) = visible (IncEval_round C graph cs ?t2)"
      by (simp add: IncEval_round_def visible_def Let_def VLOG_def emit_def split: prod.split)
    from Suc.IH [OF this] tt m False show ?thesis by simp
  qed
qed

lemma IncEval_loop_counters_free:
  "map_outcome visible (IncEval_loop fuel C graph cs (s\<lparr>round := r, step := st\<rparr>)) =
     map_outcome visible (IncEval_loop fuel C graph cs s)"
  by (rule IncEval_loop_visible) (simp add: visible_def)

text \<open>
  C9, as amended. At the first loop head \<^verbatim>\<open>round\<close> is 0. At every later loop head and at the
  return it is the number of calls of \<^verbatim>\<open>IncEval\<close> made so far, in the 32 bits of \<^verbatim>\<open>int\<close>:
  read as a signed number it is that number as long as that is below \<open>2 ^ 31\<close>. \<^verbatim>\<open>step\<close>,
  the number the log line of an iteration shows, is one more than \<^verbatim>\<open>round\<close> at each loop
  head. The loop is left at a loop head exactly when \<^verbatim>\<open>ToTerminate\<close>, called on the manager
  as it is there, returns true: a run of \<^verbatim>\<open>Query\<close> that is at a loop head returns with one
  more unit of fuel exactly then. The loop reads neither counter for anything but the log
  line: started with another value of \<^verbatim>\<open>round\<close> it does the same and only \<^verbatim>\<open>round\<close> differs,
  by the difference it started with; started with other values of \<^verbatim>\<open>round\<close> and \<^verbatim>\<open>step\<close> it
  ends the same way with the same objects and the same calls, the results of \<^verbatim>\<open>ToTerminate\<close>
  among them.
\<close>

theorem C9_round_counter:
  "round (snd (state_of (Query 0 C args w))) = 0 \<and>
   round (snd (state_of (Query fuel C args w))) =
     of_nat (count_list (Query_calls fuel C args w) Call_IncEval) \<and>
   (count_list (Query_calls fuel C args w) Call_IncEval < 2 ^ 31 \<longrightarrow>
      sint (round (snd (state_of (Query fuel C args w)))) =
        int (count_list (Query_calls fuel C args w) Call_IncEval)) \<and>
   step (snd (state_of (Query fuel C args w))) = round (snd (state_of (Query fuel C args w))) + 1 \<and>
   (\<forall>w' s'. Query fuel C args w = OutOfFuel (w', s') \<longrightarrow>
      ((\<exists>q. Query (Suc fuel) C args w = Returned q) \<longleftrightarrow>
         fst (ToTerminate C (the_messages (fr s'))))) \<and>
   ((\<exists>s'. IncEval_loop (Suc 0) C graph cs s = Returned s') \<longleftrightarrow>
      fst (ToTerminate C (the_messages (fr s)))) \<and>
   IncEval_loop fuel C graph cs (s\<lparr>round := r\<rparr>) =
     map_outcome (\<lambda>s'. s'\<lparr>round := round s' - round s + r\<rparr>) (IncEval_loop fuel C graph cs s) \<and>
   map_outcome visible (IncEval_loop fuel C graph cs (s\<lparr>round := r, step := st\<rparr>)) =
     map_outcome visible (IncEval_loop fuel C graph cs s)"
proof (intro conjI allI impI)
  show "round (snd (state_of (Query 0 C args w))) = 0"
    by (simp add: Query_def Let_def)
  show "step (snd (state_of (Query fuel C args w))) = round (snd (state_of (Query fuel C args w))) + 1"
    by (rule Query_step)
  show "round (snd (state_of (Query fuel C args w))) =
     of_nat (count_list (Query_calls fuel C args w) Call_IncEval)"
    by (rule Query_round)
  show "IncEval_loop fuel C graph cs (s\<lparr>round := r\<rparr>) =
     map_outcome (\<lambda>s'. s'\<lparr>round := round s' - round s + r\<rparr>) (IncEval_loop fuel C graph cs s)"
    by (rule IncEval_loop_round_free)
  show "map_outcome visible (IncEval_loop fuel C graph cs (s\<lparr>round := r, step := st\<rparr>)) =
     map_outcome visible (IncEval_loop fuel C graph cs s)"
    by (rule IncEval_loop_counters_free)
  show "(\<exists>s'. IncEval_loop (Suc 0) C graph cs s = Returned s') \<longleftrightarrow>
      fst (ToTerminate C (the_messages (fr s)))"
    by (rule IncEval_loop_exit)
next
  assume "count_list (Query_calls fuel C args w) Call_IncEval < 2 ^ 31"
  then show "sint (round (snd (state_of (Query fuel C args w)))) =
        int (count_list (Query_calls fuel C args w) Call_IncEval)"
    unfolding Query_round
    by (simp add: signed_of_nat signed_take_bit_int_eq_self)
next
  fix w' s'
  assume "Query fuel C args w = OutOfFuel (w', s')"
  then show "(\<exists>q. Query (Suc fuel) C args w = Returned q) \<longleftrightarrow>
      fst (ToTerminate C (the_messages (fr s')))"
    by (rule Query_exit)
qed

lemma toy_heads:
  "\<exists>w' s'. Query 1 toy_collaborators 3 toy_worker = OutOfFuel (w', s') \<and>
     the_messages (fr s') = 1"
  "\<exists>w' s'. Query 2 toy_collaborators 3 toy_worker = OutOfFuel (w', s') \<and>
     the_messages (fr s') = 0"
  by (simp_all add: Query_def Query_init_def PEval_round_def IncEval_round_def
      Query_finish_def toy_collaborators_def toy_worker_def VLOG_def emit_def Let_def
      eval_nat_numeral)

theorem C9_round_counter_witness:
  "count_list (Query_calls 5 toy_collaborators 3 toy_worker) Call_IncEval = 2 \<and>
   round (snd (state_of (Query 5 toy_collaborators 3 toy_worker))) = 2 \<and>
   sint (round (snd (state_of (Query 5 toy_collaborators 3 toy_worker)))) = 2 \<and>
   fst (ToTerminate toy_collaborators
     (the_messages (fr (snd (state_of (Query 2 toy_collaborators 3 toy_worker)))))) \<and>
   (\<exists>q. Query 3 toy_collaborators 3 toy_worker = Returned q) \<and>
   \<not> fst (ToTerminate toy_collaborators
     (the_messages (fr (snd (state_of (Query 1 toy_collaborators 3 toy_worker)))))) \<and>
   \<not> (\<exists>q. Query 2 toy_collaborators 3 toy_worker = Returned q)"
proof -
  have n: "count_list (Query_calls 5 toy_collaborators 3 toy_worker) Call_IncEval = 2"
    unfolding toy_calls by simp
  from toy_heads(1) obtain w1 s1 where
    q1: "Query 1 toy_collaborators 3 toy_worker = OutOfFuel (w1, s1)"
    and m1: "the_messages (fr s1) = 1"
    by blast
  from toy_heads(2) obtain w2 s2 where
    q2: "Query 2 toy_collaborators 3 toy_worker = OutOfFuel (w2, s2)"
    and m2: "the_messages (fr s2) = 0"
    by blast
  have t1: "\<not> fst (ToTerminate toy_collaborators (the_messages (fr s1)))"
    unfolding m1 by (simp add: toy_collaborators_def)
  have t2: "fst (ToTerminate toy_collaborators (the_messages (fr s2)))"
    unfolding m2 by (simp add: toy_collaborators_def)
  note A = C9_round_counter [where C = toy_collaborators and args = 3 and w = toy_worker
      and fuel = 5 and graph = "()" and cs = "m_comm_spec toy_worker" and r = 0 and st = 0
      and s = "\<lparr>round = 0, step = 1, fr = Query_init toy_collaborators 3 toy_worker\<rparr>"]
  note B = C9_round_counter [where C = toy_collaborators and args = 3 and w = toy_worker
      and fuel = 2 and graph = "()" and cs = "m_comm_spec toy_worker" and r = 0 and st = 0
      and s = "\<lparr>round = 0, step = 1, fr = Query_init toy_collaborators 3 toy_worker\<rparr>"]
  note D = C9_round_counter [where C = toy_collaborators and args = 3 and w = toy_worker
      and fuel = 1 and graph = "()" and cs = "m_comm_spec toy_worker" and r = 0 and st = 0
      and s = "\<lparr>round = 0, step = 1, fr = Query_init toy_collaborators 3 toy_worker\<rparr>"]
  from A n have a: "round (snd (state_of (Query 5 toy_collaborators 3 toy_worker))) = 2"
    and b: "sint (round (snd (state_of (Query 5 toy_collaborators 3 toy_worker)))) = 2"
    by simp_all
  have three: "Suc 2 = 3" and two: "Suc 1 = 2"
    by simp_all
  from B q2 t2 have c: "\<exists>q. Query 3 toy_collaborators 3 toy_worker = Returned q"
    unfolding three by blast
  from D q1 t1 have d: "\<not> (\<exists>q. Query 2 toy_collaborators 3 toy_worker = Returned q)"
    unfolding two by blast
  have s1: "snd (state_of (Query 1 toy_collaborators 3 toy_worker)) = s1"
    and s2: "snd (state_of (Query 2 toy_collaborators 3 toy_worker)) = s2"
    unfolding q1 q2 by simp_all
  from n a b t2 c t1 d show ?thesis
    unfolding s1 s2 by blast
qed

lemma IncEval_loop_never:
  assumes "\<And>m. \<not> fst (ToTerminate C m)"
  shows "IncEval_loop fuel C graph cs s \<noteq> Returned s'"
proof (induction fuel arbitrary: s)
  case 0
  show ?case by simp
next
  case (Suc fuel)
  obtain stop m where tt: "ToTerminate C (the_messages (fr s)) = (stop, m)"
    by (cases "ToTerminate C (the_messages (fr s))")
  with assms [of "the_messages (fr s)"] have "\<not> stop"
    by simp
  with tt Suc.IH show ?case by simp
qed

lemma forever_round:
  "round (snd (state_of (Query fuel forever_collaborators () forever_worker))) = of_nat fuel"
  "count_list (Query_calls fuel forever_collaborators () forever_worker) Call_IncEval = fuel"
proof -
  have never: "\<not> fst (ToTerminate forever_collaborators m)" for m
    by (simp add: forever_collaborators_def)
  obtain r where r: "Query fuel forever_collaborators () forever_worker = OutOfFuel r"
  proof (cases "Query fuel forever_collaborators () forever_worker")
    case (Returned q)
    then obtain s where "IncEval_loop fuel forever_collaborators (m_graph forever_worker)
        (m_comm_spec forever_worker)
        \<lparr>round = 0, step = 1, fr = PEval_round forever_collaborators (m_graph forever_worker)
          (m_comm_spec forever_worker) (Query_init forever_collaborators () forever_worker)\<rparr> =
        Returned s"
      by (auto simp: Query_def Let_def split: outcome.splits)
    with IncEval_loop_never [of forever_collaborators, OF never] show ?thesis
      by blast
  next
    case (OutOfFuel r)
    then show ?thesis by (rule that)
  qed
  from Query_OutOfFuel [OF r] r
  show "round (snd (state_of (Query fuel forever_collaborators () forever_worker))) = of_nat fuel"
    by simp
  from Query_OutOfFuel(1) [OF r] r
  show "count_list (Query_calls fuel forever_collaborators () forever_worker) Call_IncEval = fuel"
    by (simp add: Query_calls_def shape_count_IncEval [of "[]", simplified])
qed

text \<open>
  The claim as it was stated, "after \<open>k\<close> calls of \<^verbatim>\<open>IncEval\<close> it equals \<open>k\<close>", fails where
  \<open>k\<close> is not an \<^verbatim>\<open>int\<close>: with a \<^verbatim>\<open>ToTerminate\<close> that never returns true, at the loop head
  after \<open>2 ^ 31\<close> calls of \<^verbatim>\<open>IncEval\<close> the value of \<^verbatim>\<open>round\<close> is not \<open>2 ^ 31\<close>.
\<close>

theorem C9_round_counter_counterexample:
  "sint (round (snd (state_of (Query (2 ^ 31) forever_collaborators () forever_worker)))) \<noteq>
   int (count_list (Query_calls (2 ^ 31) forever_collaborators () forever_worker) Call_IncEval)"
  unfolding forever_round by simp

end
